theory Spec2Isabelle
  imports Main
begin

section \<open>Data model (src/types/game.ts)\<close>

text \<open>
  \<^verbatim>\<open>CellValue = 1 | ... | 9 | null\<close>. At run time a read past the end of a row array
  yields JavaScript's \<^verbatim>\<open>undefined\<close>, and a write past the end leaves holes that read
  as \<^verbatim>\<open>undefined\<close>, so the model has a third value. \<open>Null\<close> is the empty cell.
\<close>

datatype CellValue = Undefined | Null | Num nat

type_synonym SudokuGrid = "CellValue list list"

type_synonym Position = "nat \<times> nat"

datatype Difficulty = Easy | Medium | Hard

datatype GameState = Playing | Paused | Completed | Menu

record ValidationResult =
  isValid :: bool
  conflicts :: "Position list"
  isCompleted :: bool

text \<open>The only exception the engine and the game manager can raise by themselves:
  indexing \<^verbatim>\<open>grid[row]\<close> when that row does not exist gives \<^verbatim>\<open>undefined\<close>, and reading or
  writing a property of \<^verbatim>\<open>undefined\<close> throws a TypeError.\<close>

datatype error = TypeError

section \<open>Array access as JavaScript performs it\<close>

text \<open>\<^verbatim>\<open>grid[r][c]\<close> as an expression: a missing row throws, a missing column reads
  \<^verbatim>\<open>undefined\<close>.\<close>

definition getCell :: "SudokuGrid \<Rightarrow> nat \<Rightarrow> nat \<Rightarrow> error + CellValue" where
  "getCell g r c =
     (if r < length g
      then (if c < length (g ! r) then Inr (g ! r ! c) else Inr Undefined)
      else Inl TypeError)"

text \<open>\<^verbatim>\<open>row[c] = v\<close>: inside the array it overwrites; past the end JavaScript extends the
  array, the cells in between being holes.\<close>

definition setIndex :: "CellValue list \<Rightarrow> nat \<Rightarrow> CellValue \<Rightarrow> CellValue list" where
  "setIndex xs c v =
     (if c < length xs then xs[c := v]
      else xs @ replicate (c - length xs) Undefined @ [v])"

text \<open>\<^verbatim>\<open>grid[r][c] = v\<close>: a missing row throws, otherwise the row is updated in place.\<close>

definition setCell :: "SudokuGrid \<Rightarrow> nat \<Rightarrow> nat \<Rightarrow> CellValue \<Rightarrow> error + SudokuGrid" where
  "setCell g r c v =
     (if r < length g then Inr (g[r := setIndex (g ! r) c v]) else Inl TypeError)"

section \<open>SudokuEngine\<close>

definition GRID_SIZE :: nat where
  "GRID_SIZE = 9"

definition BOX_SIZE :: nat where
  "BOX_SIZE = 3"

definition createEmptyGrid :: SudokuGrid where
  "createEmptyGrid = replicate GRID_SIZE (replicate GRID_SIZE Null)"

text \<open>\<^verbatim>\<open>grid.map(row => [...row])\<close>: a fresh outer array of fresh rows with the same
  contents. In the value model a copy is the same list; the definition records where
  the source takes one.\<close>

definition cloneGrid :: "SudokuGrid \<Rightarrow> SudokuGrid" where
  "cloneGrid g = map (\<lambda>row. row) g"

subsection \<open>isValidMove\<close>

text \<open>One scanning loop of \<^verbatim>\<open>isValidMove\<close>: the cells \<open>ps\<close> are visited in order, the
  cell \<open>(row, col)\<close> itself is skipped without being read (\<^verbatim>\<open>&&\<close> short-circuits), and the
  loop stops at the first cell holding \<open>num\<close>. The result \<open>True\<close> means that the source
  executed \<^verbatim>\<open>return false\<close> inside the loop.\<close>

fun scanFor :: "SudokuGrid \<Rightarrow> nat \<Rightarrow> nat \<Rightarrow> CellValue \<Rightarrow> Position list \<Rightarrow> error + bool" where
  "scanFor g row col num [] = Inr False"
| "scanFor g row col num ((r, c) # ps) =
     (if r \<noteq> row \<or> c \<noteq> col then
        (case getCell g r c of
           Inl e \<Rightarrow> Inl e
         | Inr v \<Rightarrow> if v = num then Inr True else scanFor g row col num ps)
      else scanFor g row col num ps)"

definition rowCells :: "nat \<Rightarrow> Position list" where
  "rowCells row = map (\<lambda>c. (row, c)) [0..<GRID_SIZE]"

definition colCells :: "nat \<Rightarrow> Position list" where
  "colCells col = map (\<lambda>r. (r, col)) [0..<GRID_SIZE]"

definition boxCells :: "nat \<Rightarrow> nat \<Rightarrow> Position list" where
  "boxCells row col =
     (let boxStartRow = (row div BOX_SIZE) * BOX_SIZE;
          boxStartCol = (col div BOX_SIZE) * BOX_SIZE
      in concat (map (\<lambda>r. map (\<lambda>c. (r, c)) [boxStartCol..<boxStartCol + BOX_SIZE])
                     [boxStartRow..<boxStartRow + BOX_SIZE]))"

definition isValidMove :: "SudokuGrid \<Rightarrow> nat \<Rightarrow> nat \<Rightarrow> CellValue \<Rightarrow> error + bool" where
  "isValidMove g row col num =
     (if num = Null then Inr True
      else case scanFor g row col num (rowCells row) of
        Inl e \<Rightarrow> Inl e
      | Inr True \<Rightarrow> Inr False
      | Inr False \<Rightarrow>
         (case scanFor g row col num (colCells col) of
            Inl e \<Rightarrow> Inl e
          | Inr True \<Rightarrow> Inr False
          | Inr False \<Rightarrow>
             (case scanFor g row col num (boxCells row col) of
                Inl e \<Rightarrow> Inl e
              | Inr True \<Rightarrow> Inr False
              | Inr False \<Rightarrow> Inr True)))"

subsection \<open>validateGrid\<close>

definition getAllPositions :: "Position list" where
  "getAllPositions =
     concat (map (\<lambda>row. map (\<lambda>col. (row, col)) [0..<GRID_SIZE]) [0..<GRID_SIZE])"

text \<open>The double loop of \<^verbatim>\<open>validateGrid\<close> over the cells \<open>ps\<close>, with the two
  accumulators \<^verbatim>\<open>conflicts\<close> and \<^verbatim>\<open>filledCells\<close>.\<close>

fun validateLoop ::
  "SudokuGrid \<Rightarrow> Position list \<Rightarrow> Position list \<Rightarrow> nat \<Rightarrow> error + (Position list \<times> nat)" where
  "validateLoop g [] cs filledCells = Inr (cs, filledCells)"
| "validateLoop g ((row, col) # ps) cs filledCells =
     (case getCell g row col of
        Inl e \<Rightarrow> Inl e
      | Inr v \<Rightarrow>
         if v \<noteq> Null then
           (case isValidMove g row col v of
              Inl e \<Rightarrow> Inl e
            | Inr ok \<Rightarrow>
               validateLoop g ps (if ok then cs else cs @ [(row, col)]) (filledCells + 1))
         else validateLoop g ps cs filledCells)"

definition validateGrid :: "SudokuGrid \<Rightarrow> error + ValidationResult" where
  "validateGrid g =
     (case validateLoop g getAllPositions [] 0 of
        Inl e \<Rightarrow> Inl e
      | Inr (cs, filledCells) \<Rightarrow>
          Inr \<lparr> isValid = (length cs = 0),
                conflicts = cs,
                isCompleted = (length cs = 0 \<and> filledCells = GRID_SIZE * GRID_SIZE) \<rparr>)"

subsection \<open>solvePuzzle\<close>

text \<open>The scan of \<^verbatim>\<open>solveRecursive\<close> for the first empty cell, in row-major order.\<close>

fun findEmpty :: "SudokuGrid \<Rightarrow> Position list \<Rightarrow> error + Position option" where
  "findEmpty g [] = Inr None"
| "findEmpty g ((row, col) # ps) =
     (case getCell g row col of
        Inl e \<Rightarrow> Inl e
      | Inr v \<Rightarrow> if v = Null then Inr (Some (row, col)) else findEmpty g ps)"

text \<open>The final double loop of \<^verbatim>\<open>solveRecursive\<close>:
  \<^verbatim>\<open>resultGrid[row][col] = workingGrid[row][col]\<close> for every cell.\<close>

fun copyCells :: "SudokuGrid \<Rightarrow> SudokuGrid \<Rightarrow> Position list \<Rightarrow> error + SudokuGrid" where
  "copyCells w r [] = Inr r"
| "copyCells w r ((row, col) # ps) =
     (case getCell w row col of
        Inl e \<Rightarrow> Inl e
      | Inr v \<Rightarrow>
          (case setCell r row col v of
             Inl e \<Rightarrow> Inl e
           | Inr r' \<Rightarrow> copyCells w r' ps))"

text \<open>\<^verbatim>\<open>solveRecursive(workingGrid, resultGrid)\<close>. Both grids are mutable arrays shared
  with the caller, so the model returns them with the boolean: \<open>Inr (b, w, r)\<close> is a
  return of \<open>b\<close> that leaves the working grid as \<open>w\<close> and the result grid as \<open>r\<close>;
  \<open>Inl e\<close> is a throw (the model does not say how far the grids had been written by
  then). \<open>tryNums row col nums\<close> is the loop \<^verbatim>\<open>for (num = 1; num <= 9; num++)\<close> at the
  empty cell found, with \<open>nums\<close> the values still to try; falling out of that loop is
  the \<^verbatim>\<open>return false\<close>.\<close>

function solveRecursive ::
    "SudokuGrid \<Rightarrow> SudokuGrid \<Rightarrow> error + (bool \<times> SudokuGrid \<times> SudokuGrid)"
  and tryNums ::
    "nat \<Rightarrow> nat \<Rightarrow> nat list \<Rightarrow> SudokuGrid \<Rightarrow> SudokuGrid \<Rightarrow> error + (bool \<times> SudokuGrid \<times> SudokuGrid)"
where
  "solveRecursive w r =
     (case findEmpty w getAllPositions of
        Inl e \<Rightarrow> Inl e
      | Inr None \<Rightarrow>
          (case copyCells w r getAllPositions of
             Inl e \<Rightarrow> Inl e
           | Inr r' \<Rightarrow> Inr (True, w, r'))
      | Inr (Some (row, col)) \<Rightarrow> tryNums row col [1..<10] w r)"
| "tryNums row col [] w r = Inr (False, w, r)"
| "tryNums row col (num # nums) w r =
     (case isValidMove w row col (Num num) of
        Inl e \<Rightarrow> Inl e
      | Inr ok \<Rightarrow>
          if ok then
            (case setCell w row col (Num num) of
               Inl e \<Rightarrow> Inl e
             | Inr w1 \<Rightarrow>
                 (case solveRecursive w1 r of
                    Inl e \<Rightarrow> Inl e
                  | Inr (solved, w2, r2) \<Rightarrow>
                      if solved then
                        (case setCell r2 row col (Num num) of
                           Inl e \<Rightarrow> Inl e
                         | Inr r3 \<Rightarrow> Inr (True, w2, r3))
                      else
                        (case setCell w2 row col Null of
                           Inl e \<Rightarrow> Inl e
                         | Inr w3 \<Rightarrow> tryNums row col nums w3 r2)))
          else tryNums row col nums w r)"
  by pat_completeness auto



text \<open>Termination. The number of empty cells among the 81 scanned decreases with
  every nested call; within one call the list of values to try decreases. Because the
  loop continues on the working grid as the failed recursive call left it, the proof
  first shows, for calls that terminate, that a failed call restores the working
  grid.\<close>

definition emptyCount :: "SudokuGrid \<Rightarrow> nat" where
  "emptyCount g = length (filter (\<lambda>(r, c). getCell g r c = Inr Null) getAllPositions)"

definition filled :: "SudokuGrid \<Rightarrow> nat \<Rightarrow> nat \<Rightarrow> SudokuGrid" where
  "filled g row col = (case setCell g row col (Num 0) of Inl e \<Rightarrow> g | Inr g' \<Rightarrow> g')"

lemma findEmpty_Some:
  "findEmpty g ps = Inr (Some (row, col)) \<Longrightarrow> getCell g row col = Inr Null \<and> (row, col) \<in> set ps"
  by (induction ps) (auto split: sum.splits if_splits)

lemma getCell_Null_range:
  "getCell g row col = Inr Null \<Longrightarrow> row < length g \<and> col < length (g ! row) \<and> g ! row ! col = Null"
  by (auto simp: getCell_def split: if_splits)

lemma setCell_Null_id: "getCell g row col = Inr Null \<Longrightarrow> setCell g row col Null = Inr g"
proof -
  assume a: "getCell g row col = Inr Null"
  then have r: "row < length g" "col < length (g ! row)" "g ! row ! col = Null"
    using getCell_Null_range by blast+
  have "(g ! row)[col := Null] = g ! row" using r(3) by (metis list_update_id)
  then show ?thesis using r(1,2) by (simp add: setCell_def setIndex_def)
qed

lemma setIndex_overwrite: "setIndex (setIndex xs c a) c b = setIndex xs c b"
proof (cases "c < length xs")
  case True
  then show ?thesis by (simp add: setIndex_def)
next
  case False
  define ys where "ys = xs @ replicate (c - length xs) Undefined"
  have l: "length ys = c" using False by (simp add: ys_def)
  have "(ys @ [a])[c := b] = ys @ [b]" using l by (simp add: list_update_append)
  then show ?thesis using False l by (simp add: setIndex_def ys_def)
qed

lemma setCell_overwrite:
  "setCell g row col a = Inr g1 \<Longrightarrow> setCell g1 row col b = setCell g row col b"
  by (auto simp: setCell_def setIndex_overwrite split: if_splits)

lemma getCell_setCell_same:
  "setCell g row col v = Inr g1 \<Longrightarrow> getCell g1 row col = Inr v"
  by (auto simp: setCell_def setIndex_def getCell_def nth_append split: if_splits)

lemma getCell_setCell_other:
  "setCell g row col a = Inr g1 \<Longrightarrow> setCell g row col b = Inr g2 \<Longrightarrow> (r, c) \<noteq> (row, col) \<Longrightarrow>
   getCell g1 r c = getCell g2 r c"
  by (auto simp: setCell_def setIndex_def getCell_def nth_append nth_list_update split: if_splits)

lemma emptyCount_same:
  assumes "setCell g row col a = Inr g1" and "setCell g row col b = Inr g2"
    and "a \<noteq> Null" and "b \<noteq> Null"
  shows "emptyCount g1 = emptyCount g2"
proof -
  have "(getCell g1 r c = Inr Null) = (getCell g2 r c = Inr Null)" for r c
  proof (cases "(r, c) = (row, col)")
    case True
    then show ?thesis
      using getCell_setCell_same[OF assms(1)] getCell_setCell_same[OF assms(2)] assms(3,4) by simp
  next
    case False
    then show ?thesis using getCell_setCell_other[OF assms(1,2)] by simp
  qed
  then show ?thesis by (simp add: emptyCount_def)
qed

lemma restore_partial:
  "solveRecursive_tryNums_dom (Inl (w, r)) \<Longrightarrow>
     solveRecursive w r = Inr (False, w2, r2) \<Longrightarrow> w2 = w"
  "solveRecursive_tryNums_dom (Inr (row, col, nums, w, r)) \<Longrightarrow>
     tryNums row col nums w r = Inr (False, w2, r2) \<Longrightarrow> w2 = w \<or> setCell w row col Null = Inr w2"
proof (induct arbitrary: w2 r2 and w2 r2 rule: solveRecursive_tryNums.pinduct)
  case (1 w r)
  from "1.prems" "1.hyps"(1) obtain row col where
    fe: "findEmpty w getAllPositions = Inr (Some (row, col))"
    and t: "tryNums row col [1..<10] w r = Inr (False, w2, r2)"
    by (auto simp: solveRecursive.psimps split: sum.splits option.splits)
  from "1.hyps"(2)[OF fe refl refl t] setCell_Null_id findEmpty_Some[OF fe]
  show ?case by auto
next
  case (2 row col w r)
  then show ?case by (simp add: tryNums.psimps)
next
  case (3 row col num nums w r)
  note res = "3.prems"[unfolded tryNums.psimps(2)[OF "3.hyps"(1)]]
  from res obtain ok where ok: "isValidMove w row col (Num num) = Inr ok"
    by (auto split: sum.splits)
  show ?case
  proof (cases ok)
    case False
    with res ok have "tryNums row col nums w r = Inr (False, w2, r2)" by simp
    from "3.hyps"(4)[OF ok False this] show ?thesis .
  next
    case True
    with res ok obtain w1 where w1: "setCell w row col (Num num) = Inr w1"
      by (auto split: sum.splits)
    with res ok True obtain s wa ra where rec: "solveRecursive w1 r = Inr (s, wa, ra)"
      by (auto split: sum.splits)
    have s: "\<not> s" using res ok True w1 rec by (auto split: sum.splits)
    from "3.hyps"(2)[OF ok True w1] rec s have wa: "wa = w1" by simp
    from res ok True w1 rec s obtain w3 where w3: "setCell wa row col Null = Inr w3"
      and t: "tryNums row col nums w3 ra = Inr (False, w2, r2)"
      by (auto split: sum.splits)
    have w3': "setCell w row col Null = Inr w3"
      using w3 wa setCell_overwrite[OF w1] by simp
    from "3.hyps"(3)[OF ok True w1 rec refl refl s w3 t]
    have "w2 = w3 \<or> setCell w3 row col Null = Inr w2" .
    then show ?thesis using w3' setCell_overwrite[OF w3'] by auto
  qed
qed


lemma distinct_getAllPositions: "distinct getAllPositions"
  by (simp add: getAllPositions_def GRID_SIZE_def distinct_concat_iff
      distinct_map inj_on_def) (auto simp: upt_rec numeral_nat)

lemma filter_flip_one:
  "distinct xs \<Longrightarrow> x \<in> set xs \<Longrightarrow> P x \<Longrightarrow> \<not> Q x \<Longrightarrow>
   (\<forall>y \<in> set xs. y \<noteq> x \<longrightarrow> P y = Q y) \<Longrightarrow>
   length (filter Q xs) + 1 = length (filter P xs)"
proof (induction xs)
  case Nil
  then show ?case by simp
next
  case (Cons a xs)
  show ?case
  proof (cases "a = x")
    case True
    then have "x \<notin> set xs" using Cons.prems(1) by simp
    then have "filter Q xs = filter P xs"
      using Cons.prems(5) by (intro filter_cong) auto
    then show ?thesis using True Cons.prems(3,4) by simp
  next
    case False
    then have "length (filter Q xs) + 1 = length (filter P xs)"
      using Cons by auto
    moreover have "P a = Q a" using False Cons.prems(5) by simp
    ultimately show ?thesis by simp
  qed
qed

lemma getCell_update_other:
  "(r, c) \<noteq> (row, col) \<Longrightarrow> col < length (g ! row) \<Longrightarrow>
   getCell (g[row := (g ! row)[col := v]]) r c = getCell g r c"
proof (cases "r = row \<and> row < length g")
  case True
  assume "(r, c) \<noteq> (row, col)"
  then have "c \<noteq> col" using True by simp
  then show ?thesis using True by (simp add: getCell_def)
next
  case False
  then show ?thesis by (auto simp: getCell_def)
qed

lemma emptyCount_fill:
  assumes "getCell g row col = Inr Null" and "(row, col) \<in> set getAllPositions"
    and "setCell g row col v = Inr g1" and "v \<noteq> Null"
  shows "emptyCount g1 + 1 = emptyCount g"
proof -
  have r: "row < length g" "col < length (g ! row)"
    using getCell_Null_range[OF assms(1)] by simp_all
  have g1: "g1 = g[row := (g ! row)[col := v]]"
    using assms(3) r by (simp add: setCell_def setIndex_def)
  have same: "getCell g1 row col = Inr v" using getCell_setCell_same[OF assms(3)] .
  show ?thesis
    unfolding emptyCount_def
  proof (rule filter_flip_one[OF distinct_getAllPositions assms(2)])
    show "case (row, col) of (r, c) \<Rightarrow> getCell g r c = Inr Null" using assms(1) by simp
    show "\<not> (case (row, col) of (r, c) \<Rightarrow> getCell g1 r c = Inr Null)"
      using same assms(4) by simp
    show "\<forall>y\<in>set getAllPositions. y \<noteq> (row, col) \<longrightarrow>
        (case y of (r, c) \<Rightarrow> getCell g r c = Inr Null) =
        (case y of (r, c) \<Rightarrow> getCell g1 r c = Inr Null)"
      using getCell_update_other[OF _ r(2)] by (auto simp: g1)
  qed
qed

lemma filled_setCell:
  "setCell g row col v = Inr g1 \<Longrightarrow> \<exists>g2. setCell g row col (Num 0) = Inr g2 \<and> filled g row col = g2"
  by (auto simp: filled_def setCell_def split: if_splits)

termination solveRecursive
proof (relation "inv_image (less_than <*lex*> less_than)
    (\<lambda>x. case x of
        Inl (w, r) \<Rightarrow> (emptyCount w, 10)
      | Inr (row, col, nums, w, r) \<Rightarrow> (emptyCount (filled w row col) + 1, length nums))",
    goal_cases)
  case 1
  show ?case by (intro wf_inv_image wf_lex_prod wf_less_than)
next
  case (2 w r b x2 x y)
  then have fe: "findEmpty w getAllPositions = Inr (Some (x, y))" by simp
  note n = findEmpty_Some[OF fe]
  obtain g1 where g1: "setCell w x y (Num 0) = Inr g1"
    using getCell_Null_range[OF conjunct1[OF n]] by (simp add: setCell_def)
  have "emptyCount g1 + 1 = emptyCount w"
    using emptyCount_fill[OF conjunct1[OF n] conjunct2[OF n] g1] by simp
  then show ?case by (simp add: filled_def g1)
next
  case (3 row col num nums w r b ba)
  have w1: "setCell w row col (Num num) = Inr ba" using 3 by simp
  obtain g2 where g2: "setCell w row col (Num 0) = Inr g2" "filled w row col = g2"
    using filled_setCell[OF w1] by blast
  have "emptyCount ba = emptyCount g2" using emptyCount_same[OF w1 g2(1)] by simp
  then show ?case by (simp add: g2(2))
next
  case (4 row col num nums w r b ba bb x y xa ya bc)
  have rec: "solveRecursive ba r = Inr (False, xa, ya)" using 4 by auto
  have dom: "solveRecursive_tryNums_dom (Inl (ba, r))" using 4 by simp
  have w1: "setCell w row col (Num num) = Inr ba" using 4 by simp
  have w3: "setCell xa row col Null = Inr bc" using 4 by simp
  have xa: "xa = ba" using restore_partial(1)[OF dom rec] .
  have w3': "setCell w row col Null = Inr bc" using w3 xa setCell_overwrite[OF w1] by simp
  obtain g2 where g2: "setCell w row col (Num 0) = Inr g2"
    using filled_setCell[OF w1] by blast
  have "setCell bc row col (Num 0) = Inr g2"
    using setCell_overwrite[OF w3'] g2 by simp
  then have "filled bc row col = filled w row col"
    using g2 by (simp add: filled_def)
  then show ?case by simp
next
  case (5 row col num nums w r b)
  show ?case by simp
qed

declare solveRecursive.simps [simp del]

definition solvePuzzle :: "SudokuGrid \<Rightarrow> error + (bool \<times> SudokuGrid)" where
  "solvePuzzle g =
     (let workingGrid = cloneGrid g
      in case solveRecursive workingGrid g of
           Inl e \<Rightarrow> Inl e
         | Inr (b, w', g') \<Rightarrow> Inr (b, g'))"

subsection \<open>hasUniqueSolution\<close>

text \<open>\<^verbatim>\<open>findAllSolutions(grid, solutions, maxSolutions)\<close>. The grid and the array of
  solutions are mutated in place, so the model returns both. The search is the one of
  \<^verbatim>\<open>solveRecursive\<close>, except that it goes on after a full grid has been recorded;
  \<open>tryAll row col nums\<close> is the loop over the candidates at the empty cell found. That
  loop has no exit of its own: once the limit is reached each remaining candidate that
  passes \<^verbatim>\<open>isValidMove\<close> is still written, the recursive call returns at once, and the
  cell is cleared again.\<close>

function findAllSolutions ::
    "SudokuGrid \<Rightarrow> SudokuGrid list \<Rightarrow> nat \<Rightarrow> error + (SudokuGrid \<times> SudokuGrid list)"
  and tryAll ::
    "nat \<Rightarrow> nat \<Rightarrow> nat list \<Rightarrow> SudokuGrid \<Rightarrow> SudokuGrid list \<Rightarrow> nat \<Rightarrow>
       error + (SudokuGrid \<times> SudokuGrid list)"
where
  "findAllSolutions g solutions maxSolutions =
     (if length solutions \<ge> maxSolutions then Inr (g, solutions)
      else
        (case findEmpty g getAllPositions of
           Inl e \<Rightarrow> Inl e
         | Inr None \<Rightarrow> Inr (g, solutions @ [cloneGrid g])
         | Inr (Some (row, col)) \<Rightarrow> tryAll row col [1..<10] g solutions maxSolutions))"
| "tryAll row col [] g solutions maxSolutions = Inr (g, solutions)"
| "tryAll row col (num # nums) g solutions maxSolutions =
     (case isValidMove g row col (Num num) of
        Inl e \<Rightarrow> Inl e
      | Inr ok \<Rightarrow>
          if ok then
            (case setCell g row col (Num num) of
               Inl e \<Rightarrow> Inl e
             | Inr g1 \<Rightarrow>
                 (case findAllSolutions g1 solutions maxSolutions of
                    Inl e \<Rightarrow> Inl e
                  | Inr (g2, solutions2) \<Rightarrow>
                      (case setCell g2 row col Null of
                         Inl e \<Rightarrow> Inl e
                       | Inr g3 \<Rightarrow> tryAll row col nums g3 solutions2 maxSolutions)))
          else tryAll row col nums g solutions maxSolutions)"
  by pat_completeness auto

lemma findAll_restore_partial:
  "findAllSolutions_tryAll_dom (Inl (g, sols, m)) \<Longrightarrow>
     findAllSolutions g sols m = Inr (g2, sols2) \<Longrightarrow> g2 = g"
  "findAllSolutions_tryAll_dom (Inr (row, col, nums, g, sols, m)) \<Longrightarrow>
     tryAll row col nums g sols m = Inr (g2, sols2) \<Longrightarrow>
     g2 = g \<or> setCell g row col Null = Inr g2"
proof (induct arbitrary: g2 sols2 and g2 sols2 rule: findAllSolutions_tryAll.pinduct)
  case (1 g sols m)
  note res = "1.prems"[unfolded findAllSolutions.psimps[OF "1.hyps"(1)]]
  show ?case
  proof (cases "m \<le> length sols")
    case True
    then show ?thesis using res by simp
  next
    case False
    from res False obtain x where x: "findEmpty g getAllPositions = Inr x"
      by (auto split: sum.splits)
    show ?thesis
    proof (cases x)
      case None
      then show ?thesis using res False x by simp
    next
      case (Some p)
      obtain row col where p: "p = (row, col)" by (cases p)
      have fe: "findEmpty g getAllPositions = Inr (Some (row, col))" using x Some p by simp
      have t: "tryAll row col [1..<10] g sols m = Inr (g2, sols2)"
        using res False fe by simp
      from "1.hyps"(2)[OF False fe refl refl t] setCell_Null_id findEmpty_Some[OF fe]
      show ?thesis by auto
    qed
  qed
next
  case (2 row col g sols m)
  then show ?case by (simp add: tryAll.psimps)
next
  case (3 row col num nums g sols m)
  note res = "3.prems"[unfolded tryAll.psimps(2)[OF "3.hyps"(1)]]
  from res obtain ok where ok: "isValidMove g row col (Num num) = Inr ok"
    by (auto split: sum.splits)
  show ?case
  proof (cases ok)
    case False
    with res ok have "tryAll row col nums g sols m = Inr (g2, sols2)" by simp
    from "3.hyps"(4)[OF ok False this] show ?thesis .
  next
    case True
    with res ok obtain g1 where g1: "setCell g row col (Num num) = Inr g1"
      by (auto split: sum.splits)
    with res ok True obtain ga sa where rec: "findAllSolutions g1 sols m = Inr (ga, sa)"
      by (auto split: sum.splits)
    from "3.hyps"(2)[OF ok True g1 rec] have ga: "ga = g1" .
    from res ok True g1 rec obtain g3 where g3: "setCell ga row col Null = Inr g3"
      and t: "tryAll row col nums g3 sa m = Inr (g2, sols2)"
      by (auto split: sum.splits)
    have g3': "setCell g row col Null = Inr g3"
      using g3 ga setCell_overwrite[OF g1] by simp
    from "3.hyps"(3)[OF ok True g1 rec refl g3 t]
    have "g2 = g3 \<or> setCell g3 row col Null = Inr g2" .
    then show ?thesis using g3' setCell_overwrite[OF g3'] by auto
  qed
qed

termination findAllSolutions
proof (relation "inv_image (less_than <*lex*> less_than)
    (\<lambda>x. case x of
        Inl (g, sols, m) \<Rightarrow> (emptyCount g, 10)
      | Inr (row, col, nums, g, sols, m) \<Rightarrow> (emptyCount (filled g row col) + 1, length nums))",
    goal_cases)
  case 1
  show ?case by (intro wf_inv_image wf_lex_prod wf_less_than)
next
  case (2 g sols m b x2 x y)
  then have fe: "findEmpty g getAllPositions = Inr (Some (x, y))" by simp
  note n = findEmpty_Some[OF fe]
  obtain g1 where g1: "setCell g x y (Num 0) = Inr g1"
    using getCell_Null_range[OF conjunct1[OF n]] by (simp add: setCell_def)
  have "emptyCount g1 + 1 = emptyCount g"
    using emptyCount_fill[OF conjunct1[OF n] conjunct2[OF n] g1] by simp
  then show ?case by (simp add: filled_def g1)
next
  case (3 row col num nums g sols m b ba)
  have w1: "setCell g row col (Num num) = Inr ba" using 3 by simp
  obtain g2 where g2: "setCell g row col (Num 0) = Inr g2" "filled g row col = g2"
    using filled_setCell[OF w1] by blast
  have "emptyCount ba = emptyCount g2" using emptyCount_same[OF w1 g2(1)] by simp
  then show ?case by (simp add: g2(2))
next
  case (4 row col num nums g sols m b ba bb x y bc)
  have rec: "findAllSolutions ba sols m = Inr (x, y)" using 4 by auto
  have dom: "findAllSolutions_tryAll_dom (Inl (ba, sols, m))" using 4 by simp
  have w1: "setCell g row col (Num num) = Inr ba" using 4 by simp
  have w3: "setCell x row col Null = Inr bc" using 4 by simp
  have xa: "x = ba" using findAll_restore_partial(1)[OF dom rec] .
  have w3': "setCell g row col Null = Inr bc" using w3 xa setCell_overwrite[OF w1] by simp
  obtain g2 where g2: "setCell g row col (Num 0) = Inr g2"
    using filled_setCell[OF w1] by blast
  have "setCell bc row col (Num 0) = Inr g2"
    using setCell_overwrite[OF w3'] g2 by simp
  then have "filled bc row col = filled g row col"
    using g2 by (simp add: filled_def)
  then show ?case by simp
next
  case (5 row col num nums g sols m b)
  show ?case by simp
qed

declare findAllSolutions.simps [simp del]

definition hasUniqueSolution :: "SudokuGrid \<Rightarrow> error + bool" where
  "hasUniqueSolution g =
     (case findAllSolutions (cloneGrid g) [] 2 of
        Inl e \<Rightarrow> Inl e
      | Inr (g', solutions) \<Rightarrow> Inr (length solutions = 1))"

subsection \<open>generateCompleteSolution\<close>

text \<open>\<^verbatim>\<open>shuffleArray\<close>. The source draws \<^verbatim>\<open>Math.floor(Math.random() * (i + 1))\<close> at
  iteration \<open>i\<close>, for \<open>i\<close> from \<^verbatim>\<open>length - 1\<close> down to 1; the model takes the numbers
  drawn as the argument \<open>draw\<close> and reduces \<open>draw i\<close> into the range \<open>0..i\<close> of the values
  that expression can take.\<close>

fun shuffleLoop :: "nat \<Rightarrow> (nat \<Rightarrow> nat) \<Rightarrow> 'a list \<Rightarrow> 'a list" where
  "shuffleLoop 0 draw shuffled = shuffled"
| "shuffleLoop (Suc k) draw shuffled =
     (let i = Suc k;
          j = draw i mod (i + 1)
      in shuffleLoop k draw (shuffled[i := shuffled ! j, j := shuffled ! i]))"

definition shuffleArray :: "(nat \<Rightarrow> nat) \<Rightarrow> 'a list \<Rightarrow> 'a list" where
  "shuffleArray draw array = shuffleLoop (length array - 1) draw array"

text \<open>\<^verbatim>\<open>numbers[index] as CellValue\<close>: past the end of the array the read is
  \<^verbatim>\<open>undefined\<close>.\<close>

definition element :: "nat list \<Rightarrow> nat \<Rightarrow> CellValue" where
  "element numbers index = (if index < length numbers then Num (numbers ! index) else Undefined)"

text \<open>The pairs \<open>(i, j)\<close> of the double loop of \<^verbatim>\<open>fillBox\<close>, in the order visited.\<close>

definition boxIndices :: "(nat \<times> nat) list" where
  "boxIndices = concat (map (\<lambda>i. map (\<lambda>j. (i, j)) [0..<BOX_SIZE]) [0..<BOX_SIZE])"

fun fillBoxLoop ::
  "SudokuGrid \<Rightarrow> nat \<Rightarrow> nat \<Rightarrow> nat list \<Rightarrow> nat \<Rightarrow> (nat \<times> nat) list \<Rightarrow> error + SudokuGrid" where
  "fillBoxLoop g row col numbers index [] = Inr g"
| "fillBoxLoop g row col numbers index ((i, j) # ijs) =
     (case setCell g (row + i) (col + j) (element numbers index) of
        Inl e \<Rightarrow> Inl e
      | Inr g1 \<Rightarrow> fillBoxLoop g1 row col numbers (index + 1) ijs)"

definition fillBox :: "SudokuGrid \<Rightarrow> nat \<Rightarrow> nat \<Rightarrow> (nat \<Rightarrow> nat) \<Rightarrow> error + SudokuGrid" where
  "fillBox g row col draw =
     (let numbers = shuffleArray draw [1..<10]
      in fillBoxLoop g row col numbers 0 boxIndices)"

text \<open>\<^verbatim>\<open>fillDiagonalBoxes\<close>: \<^verbatim>\<open>fillBox(grid, box, box)\<close> for \<open>box\<close> = 0, 3, 6. Each call
  shuffles afresh; \<open>draws box\<close> are the numbers drawn in the call for \<open>box\<close>.\<close>

fun fillDiagonalLoop ::
  "SudokuGrid \<Rightarrow> nat list \<Rightarrow> (nat \<Rightarrow> nat \<Rightarrow> nat) \<Rightarrow> error + SudokuGrid" where
  "fillDiagonalLoop g [] draws = Inr g"
| "fillDiagonalLoop g (box # boxes) draws =
     (case fillBox g box box (draws box) of
        Inl e \<Rightarrow> Inl e
      | Inr g1 \<Rightarrow> fillDiagonalLoop g1 boxes draws)"

definition fillDiagonalBoxes :: "SudokuGrid \<Rightarrow> (nat \<Rightarrow> nat \<Rightarrow> nat) \<Rightarrow> error + SudokuGrid" where
  "fillDiagonalBoxes g draws =
     fillDiagonalLoop g (map (\<lambda>k. k * BOX_SIZE) [0..<GRID_SIZE div BOX_SIZE]) draws"

text \<open>The first lines of \<^verbatim>\<open>fillRemaining(grid, row, col)\<close>, which move \<open>(row, col)\<close> on to
  the next cell outside the diagonal boxes: \<open>None\<close> is one of the two \<^verbatim>\<open>return true\<close>,
  \<open>Some\<close> the cell at which the loop over the candidates then runs.\<close>

definition nextCell :: "nat \<Rightarrow> nat \<Rightarrow> (nat \<times> nat) option" where
  "nextCell row0 col0 =
     (let (row, col) = (if col0 \<ge> GRID_SIZE \<and> row0 < GRID_SIZE - 1 then (row0 + 1, 0)
                        else (row0, col0))
      in if row \<ge> GRID_SIZE \<and> col \<ge> GRID_SIZE then None
         else if row < BOX_SIZE then Some (row, if col < BOX_SIZE then BOX_SIZE else col)
         else if row < GRID_SIZE - BOX_SIZE then
           Some (row, if col = (row div BOX_SIZE) * BOX_SIZE then col + BOX_SIZE else col)
         else if col = GRID_SIZE - BOX_SIZE then
           (if row + 1 \<ge> GRID_SIZE then None else Some (row + 1, 0))
         else Some (row, col))"

text \<open>\<^verbatim>\<open>fillRemaining\<close>, with \<open>fillNums\<close> its loop over the candidates 1..9. Nothing in the
  source bounds the recursion: called at row 8, column 9 on the empty grid it writes
  1, 2, 3, 1, 2, 3, ... to the right of the last row and never returns. The model
  therefore takes the number of nested calls it may still make and returns \<open>None\<close>
  when none is left; the grid is returned with the boolean, as in \<open>solveRecursive\<close>.\<close>

fun fillRemaining ::
  "nat \<Rightarrow> SudokuGrid \<Rightarrow> nat \<Rightarrow> nat \<Rightarrow> (error + (bool \<times> SudokuGrid)) option"
  and fillNums ::
  "nat \<Rightarrow> nat \<Rightarrow> nat \<Rightarrow> nat list \<Rightarrow> SudokuGrid \<Rightarrow> (error + (bool \<times> SudokuGrid)) option"
where
  "fillRemaining 0 g row col = None"
| "fillRemaining (Suc fuel) g row col =
     (case nextCell row col of
        None \<Rightarrow> Some (Inr (True, g))
      | Some (row', col') \<Rightarrow> fillNums fuel row' col' [1..<10] g)"
| "fillNums fuel row col [] g = Some (Inr (False, g))"
| "fillNums fuel row col (num # nums) g =
     (case isValidMove g row col (Num num) of
        Inl e \<Rightarrow> Some (Inl e)
      | Inr ok \<Rightarrow>
          if ok then
            (case setCell g row col (Num num) of
               Inl e \<Rightarrow> Some (Inl e)
             | Inr g1 \<Rightarrow>
                 (case fillRemaining fuel g1 row (col + 1) of
                    None \<Rightarrow> None
                  | Some (Inl e) \<Rightarrow> Some (Inl e)
                  | Some (Inr (found, g2)) \<Rightarrow>
                      if found then Some (Inr (True, g2))
                      else
                        (case setCell g2 row col Null of
                           Inl e \<Rightarrow> Some (Inl e)
                         | Inr g3 \<Rightarrow> fillNums fuel row col nums g3)))
          else fillNums fuel row col nums g)"

text \<open>\<^verbatim>\<open>generateCompleteSolution\<close> returns the grid whatever \<^verbatim>\<open>fillRemaining\<close> answered.\<close>

definition generateCompleteSolution ::
  "nat \<Rightarrow> (nat \<Rightarrow> nat \<Rightarrow> nat) \<Rightarrow> (error + SudokuGrid) option" where
  "generateCompleteSolution fuel draws =
     (let grid = createEmptyGrid
      in case fillDiagonalBoxes grid draws of
           Inl e \<Rightarrow> Some (Inl e)
         | Inr g1 \<Rightarrow>
             (case fillRemaining fuel g1 0 BOX_SIZE of
                None \<Rightarrow> None
              | Some (Inl e) \<Rightarrow> Some (Inl e)
              | Some (Inr (found, g2)) \<Rightarrow> Some (Inr g2)))"

subsection \<open>generatePuzzle\<close>

definition getCellsToRemove :: "Difficulty \<Rightarrow> nat" where
  "getCellsToRemove d = (case d of Easy \<Rightarrow> 40 | Medium \<Rightarrow> 50 | Hard \<Rightarrow> 60)"

text \<open>The loop of \<^verbatim>\<open>generatePuzzle\<close> over the shuffled positions. The puzzle is mutated
  in place; the model returns the puzzle as it stands at the end of each iteration
  performed, in order, so the last of them is the puzzle returned.\<close>

fun removeLoop ::
  "Position list \<Rightarrow> nat \<Rightarrow> nat \<Rightarrow> SudokuGrid \<Rightarrow> error + SudokuGrid list" where
  "removeLoop [] removed cellsToRemove puzzle = Inr []"
| "removeLoop ((row, col) # ps) removed cellsToRemove puzzle =
     (if removed \<ge> cellsToRemove then Inr []
      else
        (case getCell puzzle row col of
           Inl e \<Rightarrow> Inl e
         | Inr backup \<Rightarrow>
             (case setCell puzzle row col Null of
                Inl e \<Rightarrow> Inl e
              | Inr p1 \<Rightarrow>
                  (case hasUniqueSolution p1 of
                     Inl e \<Rightarrow> Inl e
                   | Inr unique \<Rightarrow>
                       if unique then
                         (case removeLoop ps (removed + 1) cellsToRemove p1 of
                            Inl e \<Rightarrow> Inl e
                          | Inr later \<Rightarrow> Inr (p1 # later))
                       else
                         (case setCell p1 row col backup of
                            Inl e \<Rightarrow> Inl e
                          | Inr p2 \<Rightarrow>
                              (case removeLoop ps removed cellsToRemove p2 of
                                 Inl e \<Rightarrow> Inl e
                               | Inr later \<Rightarrow> Inr (p2 # later)))))))"

definition generatePuzzle ::
  "nat \<Rightarrow> Difficulty \<Rightarrow> (nat \<Rightarrow> nat \<Rightarrow> nat) \<Rightarrow> (nat \<Rightarrow> nat) \<Rightarrow>
     (error + (SudokuGrid \<times> SudokuGrid)) option" where
  "generatePuzzle fuel diff draws draw =
     (case generateCompleteSolution fuel draws of
        None \<Rightarrow> None
      | Some (Inl e) \<Rightarrow> Some (Inl e)
      | Some (Inr solution) \<Rightarrow>
          Some (let puzzle = cloneGrid solution;
                    cellsToRemove = getCellsToRemove diff;
                    positions = getAllPositions;
                    shuffledPositions = shuffleArray draw positions
                in case removeLoop shuffledPositions 0 cellsToRemove puzzle of
                     Inl e \<Rightarrow> Inl e
                   | Inr states \<Rightarrow> Inr (last (puzzle # states), solution)))"

section \<open>Grids of the fixed shape\<close>

text \<open>The spec's Grid: nine rows of nine cells. Every grid the repository builds comes
  from \<open>createEmptyGrid\<close> or \<open>cloneGrid\<close> and has this shape.\<close>

definition shape9 :: "SudokuGrid \<Rightarrow> bool" where
  "shape9 g = (length g = 9 \<and> list_all (\<lambda>row. length row = 9) g)"

text \<open>The grids of the declared type: nine by nine, every cell empty or one of 1..9.\<close>

definition cellInRange :: "CellValue \<Rightarrow> bool" where
  "cellInRange v = (case v of Num n \<Rightarrow> 1 \<le> n \<and> n \<le> 9 | _ \<Rightarrow> False)"

definition isGrid :: "SudokuGrid \<Rightarrow> bool" where
  "isGrid g =
     (shape9 g \<and>
      list_all (\<lambda>(r, c). g ! r ! c = Null \<or> cellInRange (g ! r ! c)) getAllPositions)"

section \<open>The Sudoku constraints\<close>

text \<open>The cells other than \<open>(row, col)\<close> that share its row, its column or its box.\<close>

definition peers :: "nat \<Rightarrow> nat \<Rightarrow> Position list" where
  "peers row col =
     filter (\<lambda>(r, c). (r \<noteq> row \<or> c \<noteq> col) \<and>
                      (r = row \<or> c = col \<or> (r div 3 = row div 3 \<and> c div 3 = col div 3)))
            getAllPositions"

text \<open>The value at \<open>(row, col)\<close> occurs again in its row, its column or its box.\<close>

definition clashes :: "SudokuGrid \<Rightarrow> nat \<Rightarrow> nat \<Rightarrow> bool" where
  "clashes g row col = list_ex (\<lambda>(r, c). g ! r ! c = g ! row ! col) (peers row col)"

text \<open>No filled cell repeats in its row, column or box.\<close>

definition conflictFree :: "SudokuGrid \<Rightarrow> bool" where
  "conflictFree g =
     list_all (\<lambda>(r, c). g ! r ! c = Null \<or> \<not> clashes g r c) getAllPositions"

text \<open>A solved grid: full, with values 1..9, and no value repeated in a row, a column
  or a box.\<close>

definition solved :: "SudokuGrid \<Rightarrow> bool" where
  "solved s =
     (isGrid s \<and> list_all (\<lambda>(r, c). s ! r ! c \<noteq> Null) getAllPositions \<and> conflictFree s)"

text \<open>\<open>s\<close> agrees with \<open>g\<close> on every cell that \<open>g\<close> has filled.\<close>

definition completes :: "SudokuGrid \<Rightarrow> SudokuGrid \<Rightarrow> bool" where
  "completes s g =
     list_all (\<lambda>(r, c). g ! r ! c = Null \<or> s ! r ! c = g ! r ! c) getAllPositions"

text \<open>What the backtracking search looks for: a full nine-by-nine grid that keeps the
  filled cells of \<open>g\<close> and puts into each empty cell of \<open>g\<close> a value 1..9 that does not
  repeat in its row, column or box. The filled cells of \<open>g\<close> themselves are never
  checked against each other.\<close>

definition fills :: "SudokuGrid \<Rightarrow> SudokuGrid \<Rightarrow> bool" where
  "fills s g =
     (shape9 s \<and>
      list_all (\<lambda>(r, c). if g ! r ! c = Null
                          then cellInRange (s ! r ! c) \<and> \<not> clashes s r c
                          else s ! r ! c = g ! r ! c) getAllPositions)"

section \<open>Notions for the generator\<close>

text \<open>\<open>p\<close> is the nine-by-nine grid \<open>sol\<close> with some cells emptied.\<close>

definition emptied :: "SudokuGrid \<Rightarrow> SudokuGrid \<Rightarrow> bool" where
  "emptied p sol =
     (shape9 p \<and> list_all (\<lambda>(r, c). p ! r ! c = Null \<or> p ! r ! c = sol ! r ! c) getAllPositions)"

text \<open>The cells outside the three diagonal boxes, in row-major order.\<close>

definition fillOrder :: "Position list" where
  "fillOrder = filter (\<lambda>(r, c). r div 3 \<noteq> c div 3) getAllPositions"

text \<open>Each cell of the list is followed by the cell that \<open>nextCell\<close> reaches from the
  column to its right, and after the last one \<open>nextCell\<close> ends the fill.\<close>

fun chain :: "Position list \<Rightarrow> bool" where
  "chain [] = True"
| "chain [p] = (nextCell (fst p) (snd p + 1) = None)"
| "chain (p # q # ps) = (nextCell (fst p) (snd p + 1) = Some q \<and> chain (q # ps))"

definition follows :: "nat \<Rightarrow> nat \<Rightarrow> Position list \<Rightarrow> bool" where
  "follows row col ps = (nextCell row col = (case ps of [] \<Rightarrow> None | q # qs \<Rightarrow> Some q))"

text \<open>The state of the fill: the empty cells of \<open>g\<close> are the cells \<open>ps\<close> still to visit.\<close>

definition pending :: "SudokuGrid \<Rightarrow> Position list \<Rightarrow> bool" where
  "pending g ps =
     (shape9 g \<and> distinct ps \<and> list_all (\<lambda>(r, c). r < 9 \<and> c < 9) ps \<and>
      list_all (\<lambda>(r, c). (g ! r ! c = Null) = ((r, c) \<in> set ps)) getAllPositions \<and>
      chain ps)"

text \<open>A list of nine different values 1..9.\<close>

definition numbering :: "nat list \<Rightarrow> bool" where
  "numbering a = (length a = 9 \<and> distinct a \<and> list_all (\<lambda>n. 1 \<le> n \<and> n \<le> 9) a)"

text \<open>The grid with the lists \<open>a\<close>, \<open>b\<close>, \<open>c\<close> written row by row into the three diagonal
  boxes and every other cell empty.\<close>

definition diagonalGrid :: "nat list \<Rightarrow> nat list \<Rightarrow> nat list \<Rightarrow> SudokuGrid" where
  "diagonalGrid a b c =
     [[Num (a ! 0), Num (a ! 1), Num (a ! 2), Null, Null, Null, Null, Null, Null],
      [Num (a ! 3), Num (a ! 4), Num (a ! 5), Null, Null, Null, Null, Null, Null],
      [Num (a ! 6), Num (a ! 7), Num (a ! 8), Null, Null, Null, Null, Null, Null],
      [Null, Null, Null, Num (b ! 0), Num (b ! 1), Num (b ! 2), Null, Null, Null],
      [Null, Null, Null, Num (b ! 3), Num (b ! 4), Num (b ! 5), Null, Null, Null],
      [Null, Null, Null, Num (b ! 6), Num (b ! 7), Num (b ! 8), Null, Null, Null],
      [Null, Null, Null, Null, Null, Null, Num (c ! 0), Num (c ! 1), Num (c ! 2)],
      [Null, Null, Null, Null, Null, Null, Num (c ! 3), Num (c ! 4), Num (c ! 5)],
      [Null, Null, Null, Null, Null, Null, Num (c ! 6), Num (c ! 7), Num (c ! 8)]]"

definition boxList :: "nat list \<Rightarrow> nat list \<Rightarrow> nat list \<Rightarrow> nat \<Rightarrow> nat list" where
  "boxList a b c k = (if k = 0 then a else if k = 1 then b else c)"

text \<open>The grid after \<^verbatim>\<open>fillDiagonalBoxes\<close>, for the numbers drawn.\<close>

definition drawn :: "(nat \<Rightarrow> nat \<Rightarrow> nat) \<Rightarrow> SudokuGrid" where
  "drawn draws =
     diagonalGrid (shuffleArray (draws 0) [1..<10]) (shuffleArray (draws 3) [1..<10])
       (shuffleArray (draws 6) [1..<10])"

section \<open>GameManager\<close>

record Move =
  position :: Position
  previousValue :: CellValue
  newValue :: CellValue
  timestamp :: int

text \<open>\<^verbatim>\<open>GameData\<close>. The field \<^verbatim>\<open>isCompleted\<close> of the source is \<open>completed\<close> here, the name
  \<open>isCompleted\<close> being the field of \<open>ValidationResult\<close>; \<^verbatim>\<open>id\<close> is \<open>gameId\<close>.\<close>

record GameData =
  gameId :: string
  grid :: SudokuGrid
  solution :: SudokuGrid
  originalGrid :: SudokuGrid
  difficulty :: Difficulty
  timeElapsed :: int
  moveHistory :: "Move list"
  completed :: bool
  createdAt :: int

text \<open>The private fields of the class. \<open>timerRunning\<close> stands for
  \<^verbatim>\<open>timerInterval !== null\<close>. The five observer callbacks are external collaborators:
  they are handed the grid or the result and are taken not to write to the manager.
  \<^verbatim>\<open>Date.now()\<close> is a parameter of every operation that reads the clock.\<close>

record GameManager =
  gameData :: "GameData option"
  gameState :: GameState
  startTime :: int
  pausedTime :: int
  timerRunning :: bool

definition newGameManager :: GameManager where
  "newGameManager =
     \<lparr> gameData = None, gameState = Menu, startTime = 0, pausedTime = 0,
       timerRunning = False \<rparr>"

definition setGameState :: "GameState \<Rightarrow> GameManager \<Rightarrow> GameManager" where
  "setGameState st m = m\<lparr> gameState := st \<rparr>"

definition stopTimer :: "GameManager \<Rightarrow> GameManager" where
  "stopTimer m = (if timerRunning m then m\<lparr> timerRunning := False \<rparr> else m)"

definition startTimer :: "GameManager \<Rightarrow> GameManager" where
  "startTimer m = (stopTimer m)\<lparr> timerRunning := True \<rparr>"

definition getCurrentTimeElapsed :: "int \<Rightarrow> GameManager \<Rightarrow> int" where
  "getCurrentTimeElapsed now m =
     (if startTime m = 0 then 0 else (now - startTime m) div 1000)"

text \<open>The callback installed by \<^verbatim>\<open>startTimer\<close>, fired once a second while the interval is
  set.\<close>

definition timerTick :: "int \<Rightarrow> GameManager \<Rightarrow> GameManager" where
  "timerTick now m =
     (if timerRunning m then
        (case gameData m of
           None \<Rightarrow> m
         | Some d \<Rightarrow>
             if gameState m = Playing
             then m\<lparr> gameData := Some (d\<lparr> timeElapsed := getCurrentTimeElapsed now m \<rparr>) \<rparr>
             else m)
      else m)"

definition validateGame :: "GameManager \<Rightarrow> error + ValidationResult" where
  "validateGame m =
     (case gameData m of
        None \<Rightarrow> Inr \<lparr> isValid = False, conflicts = [], isCompleted = False \<rparr>
      | Some d \<Rightarrow> validateGrid (grid d))"

definition completeGame :: "int \<Rightarrow> GameManager \<Rightarrow> GameManager" where
  "completeGame now m =
     (case gameData m of
        None \<Rightarrow> m
      | Some d \<Rightarrow>
          stopTimer (setGameState Completed
            (m\<lparr> gameData :=
                   Some (d\<lparr> completed := True,
                            timeElapsed := getCurrentTimeElapsed now m \<rparr>) \<rparr>)))"

text \<open>\<^verbatim>\<open>startNewGame(difficulty)\<close>. The pair \<open>(puzzle, sol)\<close> is what
  \<^verbatim>\<open>SudokuEngine.generatePuzzle(difficulty)\<close> returned, \<open>gid\<close> the string
  \<^verbatim>\<open>generateGameId()\<close> built, \<open>t1\<close> and \<open>t2\<close> the two clock reads (for \<^verbatim>\<open>createdAt\<close> and for
  \<^verbatim>\<open>startTime\<close>). The current grid and the original grid are two separate clones of the
  puzzle, so a write to one is never a write to the other. The \<^verbatim>\<open>catch\<close> block logs and
  rethrows.\<close>

definition startNewGame ::
  "SudokuGrid \<times> SudokuGrid \<Rightarrow> Difficulty \<Rightarrow> string \<Rightarrow> int \<Rightarrow> int \<Rightarrow> GameManager \<Rightarrow>
     (error + unit) \<times> GameManager" where
  "startNewGame generated diff gid t1 t2 m =
     (let (puzzle, sol) = generated;
          m1 = m\<lparr> gameData := Some
                  \<lparr> gameId = gid, grid = cloneGrid puzzle, solution = sol,
                    originalGrid = cloneGrid puzzle, difficulty = diff, timeElapsed = 0,
                    moveHistory = [], completed = False, createdAt = t1 \<rparr> \<rparr>;
          m2 = m1\<lparr> startTime := t2, pausedTime := 0 \<rparr>;
          m3 = startTimer (setGameState Playing m2)
      in case validateGame m3 of
           Inl e \<Rightarrow> (Inl e, m3)
         | Inr validationResult \<Rightarrow> (Inr (), m3))"

text \<open>\<^verbatim>\<open>grid[row][col]\<close> with the indices the caller passed, any integers: a negative row
  is a missing row, a negative column a missing element.\<close>

definition getCellAt :: "SudokuGrid \<Rightarrow> int \<Rightarrow> int \<Rightarrow> error + CellValue" where
  "getCellAt g row col =
     (if row < 0 then Inl TypeError
      else if col < 0 then (if nat row < length g then Inr Undefined else Inl TypeError)
      else getCell g (nat row) (nat col))"

text \<open>\<^verbatim>\<open>makeMove(row, col, value)\<close>. The result is what the call returned or threw,
  together with the manager as the call left it. \<open>t1\<close> is the clock read for the move's
  timestamp, \<open>t2\<close> the one read by \<^verbatim>\<open>completeGame\<close>. Past the check of the original grid
  both indices are known to be natural numbers, so the later accesses use \<open>nat\<close>.\<close>

definition makeMove ::
  "int \<Rightarrow> int \<Rightarrow> CellValue \<Rightarrow> int \<Rightarrow> int \<Rightarrow> GameManager \<Rightarrow> (error + bool) \<times> GameManager" where
  "makeMove row col v t1 t2 m =
     (case gameData m of
        None \<Rightarrow> (Inr False, m)
      | Some d \<Rightarrow>
          if gameState m \<noteq> Playing then (Inr False, m)
          else
            (case getCellAt (originalGrid d) row col of
               Inl e \<Rightarrow> (Inl e, m)
             | Inr given \<Rightarrow>
                 if given \<noteq> Null then (Inr False, m)
                 else
                   (case getCell (grid d) (nat row) (nat col) of
                      Inl e \<Rightarrow> (Inl e, m)
                    | Inr prev \<Rightarrow>
                        let move = \<lparr> position = (nat row, nat col), previousValue = prev,
                                     newValue = v, timestamp = t1 \<rparr>
                        in
                        (case setCell (grid d) (nat row) (nat col) v of
                           Inl e \<Rightarrow> (Inl e, m)
                         | Inr g' \<Rightarrow>
                             let m1 = m\<lparr> gameData :=
                                           Some (d\<lparr> grid := g',
                                                    moveHistory := moveHistory d @ [move] \<rparr>) \<rparr>
                             in
                             (case validateGame m1 of
                                Inl e \<Rightarrow> (Inl e, m1)
                              | Inr validationResult \<Rightarrow>
                                  if isCompleted validationResult
                                  then (Inr True, completeGame t2 m1)
                                  else (Inr True, m1))))))"

text \<open>\<^verbatim>\<open>undoMove()\<close>: \<^verbatim>\<open>pop()\<close> removes and returns the last element of the history.\<close>

definition undoMove :: "GameManager \<Rightarrow> (error + bool) \<times> GameManager" where
  "undoMove m =
     (case gameData m of
        None \<Rightarrow> (Inr False, m)
      | Some d \<Rightarrow>
          if length (moveHistory d) = 0 then (Inr False, m)
          else
            let lastMove = last (moveHistory d);
                d1 = d\<lparr> moveHistory := butlast (moveHistory d) \<rparr>;
                (row, col) = position lastMove
            in
            (case setCell (grid d1) row col (previousValue lastMove) of
               Inl e \<Rightarrow> (Inl e, m\<lparr> gameData := Some d1 \<rparr>)
             | Inr g' \<Rightarrow>
                 let m1 = m\<lparr> gameData := Some (d1\<lparr> grid := g' \<rparr>) \<rparr>
                 in
                 (case validateGame m1 of
                    Inl e \<Rightarrow> (Inl e, m1)
                  | Inr validationResult \<Rightarrow> (Inr True, m1))))"

definition pauseGame :: "int \<Rightarrow> GameManager \<Rightarrow> GameManager" where
  "pauseGame now m =
     (if gameState m = Playing
      then stopTimer ((setGameState Paused m)\<lparr> pausedTime := now \<rparr>)
      else m)"

definition resumeGame :: "int \<Rightarrow> GameManager \<Rightarrow> GameManager" where
  "resumeGame now m =
     (if gameState m = Paused
      then
        (let m1 = setGameState Playing m;
             m2 = (if pausedTime m1 > 0
                   then (let pauseDuration = now - pausedTime m1
                         in m1\<lparr> startTime := startTime m1 + pauseDuration, pausedTime := 0 \<rparr>)
                   else m1)
         in startTimer m2)
      else m)"

text \<open>\<^verbatim>\<open>SudokuEngine.getHint\<close>: the empty cells in row-major order, then one of them.
  \<open>pick\<close> is the number \<^verbatim>\<open>Math.floor(Math.random() * emptyCells.length)\<close> drew; it lies
  below the length, and the model reduces the parameter to that range.\<close>

fun emptyCellsLoop :: "SudokuGrid \<Rightarrow> Position list \<Rightarrow> Position list \<Rightarrow> error + Position list" where
  "emptyCellsLoop g [] emptyCells = Inr emptyCells"
| "emptyCellsLoop g ((row, col) # ps) emptyCells =
     (case getCell g row col of
        Inl e \<Rightarrow> Inl e
      | Inr v \<Rightarrow> emptyCellsLoop g ps (if v = Null then emptyCells @ [(row, col)] else emptyCells))"

definition engineGetHint :: "SudokuGrid \<Rightarrow> SudokuGrid \<Rightarrow> nat \<Rightarrow> error + Position option" where
  "engineGetHint g sol pick =
     (case emptyCellsLoop g getAllPositions [] of
        Inl e \<Rightarrow> Inl e
      | Inr emptyCells \<Rightarrow>
          if length emptyCells = 0 then Inr None
          else Inr (Some (emptyCells ! (pick mod length emptyCells))))"

definition getHint :: "nat \<Rightarrow> GameManager \<Rightarrow> (error + Position option) \<times> GameManager" where
  "getHint pick m =
     (case gameData m of
        None \<Rightarrow> (Inr None, m)
      | Some d \<Rightarrow> (engineGetHint (grid d) (solution d) pick, m))"

definition dispose :: "GameManager \<Rightarrow> GameManager" where
  "dispose m = (stopTimer m)\<lparr> gameData := None, gameState := Menu \<rparr>"

subsection \<open>Sequences of calls\<close>

text \<open>The calls a client can make on a running session, with the values they read from
  the clock and the random source, and the timer's callback.\<close>

datatype Call =
    MakeMove int int CellValue int int
  | UndoMove
  | PauseGame int
  | ResumeGame int
  | GetHint nat
  | ValidateGame
  | TimerTick int

fun call :: "Call \<Rightarrow> GameManager \<Rightarrow> GameManager" where
  "call (MakeMove row col v t1 t2) m = snd (makeMove row col v t1 t2 m)"
| "call UndoMove m = snd (undoMove m)"
| "call (PauseGame now) m = pauseGame now m"
| "call (ResumeGame now) m = resumeGame now m"
| "call (GetHint pick) m = snd (getHint pick m)"
| "call ValidateGame m = m"
| "call (TimerTick now) m = timerTick now m"

text \<open>A sequence of calls, each on the manager as the previous one left it (a call that
  threw has left the manager as \<open>makeMove\<close> and \<open>undoMove\<close> say).\<close>

fun calls :: "Call list \<Rightarrow> GameManager \<Rightarrow> GameManager" where
  "calls [] m = m"
| "calls (c # cs) m = calls cs (call c m)"

subsection \<open>Sessions as the manager builds them\<close>

text \<open>Both grids of a session are clones of the generated puzzle, nine by nine, and
  every recorded move was made at a position of the grid.\<close>

definition sessionOk :: "GameData \<Rightarrow> bool" where
  "sessionOk d =
     (shape9 (grid d) \<and> shape9 (originalGrid d) \<and>
      list_all (\<lambda>mv. fst (position mv) < 9 \<and> snd (position mv) < 9) (moveHistory d))"

definition managerOk :: "GameManager \<Rightarrow> bool" where
  "managerOk m = (case gameData m of None \<Rightarrow> True | Some d \<Rightarrow> sessionOk d)"

section \<open>A concrete session\<close>

definition exampleSolution :: SudokuGrid where
  "exampleSolution =
     [[Num 1, Num 2, Num 3, Num 4, Num 5, Num 6, Num 7, Num 8, Num 9],
      [Num 4, Num 5, Num 6, Num 7, Num 8, Num 9, Num 1, Num 2, Num 3],
      [Num 7, Num 8, Num 9, Num 1, Num 2, Num 3, Num 4, Num 5, Num 6],
      [Num 2, Num 3, Num 4, Num 5, Num 6, Num 7, Num 8, Num 9, Num 1],
      [Num 5, Num 6, Num 7, Num 8, Num 9, Num 1, Num 2, Num 3, Num 4],
      [Num 8, Num 9, Num 1, Num 2, Num 3, Num 4, Num 5, Num 6, Num 7],
      [Num 3, Num 4, Num 5, Num 6, Num 7, Num 8, Num 9, Num 1, Num 2],
      [Num 6, Num 7, Num 8, Num 9, Num 1, Num 2, Num 3, Num 4, Num 5],
      [Num 9, Num 1, Num 2, Num 3, Num 4, Num 5, Num 6, Num 7, Num 8]]"

text \<open>The solution with the cells (0,0) and (4,4) emptied.\<close>

definition examplePuzzle :: SudokuGrid where
  "examplePuzzle =
     [[Null, Num 2, Num 3, Num 4, Num 5, Num 6, Num 7, Num 8, Num 9],
      [Num 4, Num 5, Num 6, Num 7, Num 8, Num 9, Num 1, Num 2, Num 3],
      [Num 7, Num 8, Num 9, Num 1, Num 2, Num 3, Num 4, Num 5, Num 6],
      [Num 2, Num 3, Num 4, Num 5, Num 6, Num 7, Num 8, Num 9, Num 1],
      [Num 5, Num 6, Num 7, Num 8, Null, Num 1, Num 2, Num 3, Num 4],
      [Num 8, Num 9, Num 1, Num 2, Num 3, Num 4, Num 5, Num 6, Num 7],
      [Num 3, Num 4, Num 5, Num 6, Num 7, Num 8, Num 9, Num 1, Num 2],
      [Num 6, Num 7, Num 8, Num 9, Num 1, Num 2, Num 3, Num 4, Num 5],
      [Num 9, Num 1, Num 2, Num 3, Num 4, Num 5, Num 6, Num 7, Num 8]]"

definition exampleData :: GameData where
  "exampleData =
     \<lparr> gameId = ''game_1'', grid = examplePuzzle, solution = exampleSolution,
       originalGrid = examplePuzzle, difficulty = Easy, timeElapsed = 0,
       moveHistory = [], completed = False, createdAt = 1000 \<rparr>"

definition exampleManager :: GameManager where
  "exampleManager =
     \<lparr> gameData = Some exampleData, gameState = Playing, startTime = 1000,
       pausedTime = 0, timerRunning = True \<rparr>"


text \<open>The session after the two missing cells have been filled in correctly: the second
  move completes the game.\<close>

definition exampleCompleted :: GameManager where
  "exampleCompleted =
     snd (makeMove 4 4 (Num 9) 3000 3001 (snd (makeMove 0 0 (Num 1) 2000 2001 exampleManager)))"

text \<open>A grid with two 5s in its first row, otherwise empty.\<close>

definition exampleConflict :: SudokuGrid where
  "exampleConflict =
     [[Num 5, Null, Null, Null, Num 5, Null, Null, Null, Null],
      [Null, Null, Null, Null, Null, Null, Null, Null, Null],
      [Null, Null, Null, Null, Null, Null, Null, Null, Null],
      [Null, Null, Null, Null, Null, Null, Null, Null, Null],
      [Null, Null, Null, Null, Null, Null, Null, Null, Null],
      [Null, Null, Null, Null, Null, Null, Null, Null, Null],
      [Null, Null, Null, Null, Null, Null, Null, Null, Null],
      [Null, Null, Null, Null, Null, Null, Null, Null, Null],
      [Null, Null, Null, Null, Null, Null, Null, Null, Null]]"

text \<open>The solution with a second 2 written over the 1 at (0,0): a full grid that
  breaks the row, column and box constraints.\<close>

definition exampleFullInvalid :: SudokuGrid where
  "exampleFullInvalid =
     [[Num 2, Num 2, Num 3, Num 4, Num 5, Num 6, Num 7, Num 8, Num 9],
      [Num 4, Num 5, Num 6, Num 7, Num 8, Num 9, Num 1, Num 2, Num 3],
      [Num 7, Num 8, Num 9, Num 1, Num 2, Num 3, Num 4, Num 5, Num 6],
      [Num 2, Num 3, Num 4, Num 5, Num 6, Num 7, Num 8, Num 9, Num 1],
      [Num 5, Num 6, Num 7, Num 8, Num 9, Num 1, Num 2, Num 3, Num 4],
      [Num 8, Num 9, Num 1, Num 2, Num 3, Num 4, Num 5, Num 6, Num 7],
      [Num 3, Num 4, Num 5, Num 6, Num 7, Num 8, Num 9, Num 1, Num 2],
      [Num 6, Num 7, Num 8, Num 9, Num 1, Num 2, Num 3, Num 4, Num 5],
      [Num 9, Num 1, Num 2, Num 3, Num 4, Num 5, Num 6, Num 7, Num 8]]"

text \<open>A grid without conflicts that cannot be completed: the last cell of the first
  row needs a 9, and its column already has one.\<close>

definition exampleUnsolvable :: SudokuGrid where
  "exampleUnsolvable =
     [[Num 1, Num 2, Num 3, Num 4, Num 5, Num 6, Num 7, Num 8, Null],
      [Null, Null, Null, Null, Null, Null, Null, Null, Num 9],
      [Null, Null, Null, Null, Null, Null, Null, Null, Null],
      [Null, Null, Null, Null, Null, Null, Null, Null, Null],
      [Null, Null, Null, Null, Null, Null, Null, Null, Null],
      [Null, Null, Null, Null, Null, Null, Null, Null, Null],
      [Null, Null, Null, Null, Null, Null, Null, Null, Null],
      [Null, Null, Null, Null, Null, Null, Null, Null, Null],
      [Null, Null, Null, Null, Null, Null, Null, Null, Null]]"

section \<open>Properties of the validator\<close>

lemma shape9_length: "shape9 g \<Longrightarrow> length g = 9"
  by (simp add: shape9_def)

lemma shape9_nth: "shape9 g \<Longrightarrow> r < 9 \<Longrightarrow> length (g ! r) = 9"
  by (simp add: shape9_def list_all_length)

lemma getCell_shape9: "shape9 g \<Longrightarrow> r < 9 \<Longrightarrow> c < 9 \<Longrightarrow> getCell g r c = Inr (g ! r ! c)"
  by (simp add: getCell_def shape9_nth shape9_length)

lemma scanFor_in_range:
  "\<forall>(r, c) \<in> set ps. r < length g \<and> c < length (g ! r) \<Longrightarrow>
   scanFor g row col num ps = Inr (\<exists>(r, c) \<in> set ps. (r \<noteq> row \<or> c \<noteq> col) \<and> g ! r ! c = num)"
  by (induction ps) (auto simp: getCell_def)

lemma set_rowCells: "set (rowCells row) = {(r, c). r = row \<and> c < 9}"
  by (auto simp: rowCells_def GRID_SIZE_def)

lemma set_colCells: "set (colCells col) = {(r, c). c = col \<and> r < 9}"
  by (auto simp: colCells_def GRID_SIZE_def)

lemma in_box_iff: "(b * 3 \<le> r \<and> r < b * 3 + 3) = (r div 3 = (b::nat))"
  by arith

lemma mem_product_cells:
  "((r, c) \<in> set (concat (map (\<lambda>r. map (\<lambda>c. (r, c)) cs) rs))) = (r \<in> set rs \<and> c \<in> set cs)"
  by (induction rs) auto

lemma mem_boxCells:
  "((r, c) \<in> set (boxCells row col)) = (r div 3 = row div 3 \<and> c div 3 = col div 3)"
proof -
  have "((r, c) \<in> set (boxCells row col)) =
        ((row div 3 * 3 \<le> r \<and> r < row div 3 * 3 + 3) \<and>
         (col div 3 * 3 \<le> c \<and> c < col div 3 * 3 + 3))"
    unfolding boxCells_def BOX_SIZE_def Let_def mem_product_cells by simp
  then show ?thesis by (simp only: in_box_iff)
qed

lemma set_boxCells:
  "set (boxCells row col) = {(r, c). r div 3 = row div 3 \<and> c div 3 = col div 3}"
  using mem_boxCells by auto

lemma mem_getAllPositions: "((r, c) \<in> set getAllPositions) = (r < 9 \<and> c < 9)"
  unfolding getAllPositions_def GRID_SIZE_def mem_product_cells by simp

lemma set_getAllPositions: "set getAllPositions = {(r, c). r < 9 \<and> c < 9}"
  using mem_getAllPositions by auto

lemma length_getAllPositions: "length getAllPositions = 81"
  by (simp add: getAllPositions_def GRID_SIZE_def length_concat comp_def sum_list_triv)

lemma div3_lt9: "r div 3 = row div 3 \<Longrightarrow> row < 9 \<Longrightarrow> r < (9::nat)"
  by arith

text \<open>What \<open>isValidMove\<close> computes on a nine-by-nine grid; the claims about the validator
  and about the solver both rest on it.\<close>

lemma isValidMove_shape9:
  assumes "shape9 g" and "row < 9" and "col < 9"
  shows "isValidMove g row col num =
           Inr (num = Null \<or>
                \<not> (\<exists>r<9. \<exists>c<9. (r \<noteq> row \<or> c \<noteq> col) \<and>
                       (r = row \<or> c = col \<or> (r div 3 = row div 3 \<and> c div 3 = col div 3)) \<and>
                       g ! r ! c = num))"
proof -
  have len: "length g = 9" using assms(1) by (simp add: shape9_def)
  have rng: "\<And>r c. r < 9 \<Longrightarrow> c < 9 \<Longrightarrow> r < length g \<and> c < length (g ! r)"
    using assms(1) len by (simp add: shape9_nth)
  define inRow where "inRow = (\<exists>c<9. c \<noteq> col \<and> g ! row ! c = num)"
  define inCol where "inCol = (\<exists>r<9. r \<noteq> row \<and> g ! r ! col = num)"
  define inBox where "inBox = (\<exists>r c. r div 3 = row div 3 \<and> c div 3 = col div 3 \<and>
                                  (r \<noteq> row \<or> c \<noteq> col) \<and> g ! r ! c = num)"
  have R: "scanFor g row col num (rowCells row) = Inr inRow"
    unfolding inRow_def
    by (subst scanFor_in_range) (use rng assms in \<open>auto simp: set_rowCells\<close>)
  have C: "scanFor g row col num (colCells col) = Inr inCol"
    unfolding inCol_def
    by (subst scanFor_in_range) (use rng assms in \<open>auto simp: set_colCells\<close>)
  have B: "scanFor g row col num (boxCells row col) = Inr inBox"
    unfolding inBox_def
    by (subst scanFor_in_range) (use rng assms in \<open>auto simp: set_boxCells dest: div3_lt9\<close>)
  have eq: "(\<exists>r<9. \<exists>c<9. (r \<noteq> row \<or> c \<noteq> col) \<and>
                       (r = row \<or> c = col \<or> (r div 3 = row div 3 \<and> c div 3 = col div 3)) \<and>
                       g ! r ! c = num) = (inRow \<or> inCol \<or> inBox)"
    unfolding inRow_def inCol_def inBox_def
    using assms(2,3) by (auto dest: div3_lt9)
  show ?thesis
    unfolding isValidMove_def R C B eq
    by (cases inRow; cases inCol; cases inBox; simp)
qed

lemma validateLoop_in_range:
  "\<forall>(r, c) \<in> set ps. r < 9 \<and> c < 9 \<Longrightarrow> shape9 g \<Longrightarrow>
   validateLoop g ps cs n =
     Inr (cs @ filter (\<lambda>(r, c). g ! r ! c \<noteq> Null \<and> isValidMove g r c (g ! r ! c) = Inr False) ps,
          n + length (filter (\<lambda>(r, c). g ! r ! c \<noteq> Null) ps))"
proof (induction ps arbitrary: cs n)
  case Nil
  then show ?case by simp
next
  case (Cons p ps)
  obtain r c where p: "p = (r, c)" by (cases p)
  have rc: "r < 9" "c < 9" using Cons.prems(1) p by auto
  have g: "getCell g r c = Inr (g ! r ! c)"
    using rc Cons.prems(2) by (simp add: getCell_shape9)
  obtain b where b: "isValidMove g r c (g ! r ! c) = Inr b"
    using isValidMove_shape9[OF Cons.prems(2) rc] by blast
  have IH: "\<And>cs n. validateLoop g ps cs n =
     Inr (cs @ filter (\<lambda>(r, c). g ! r ! c \<noteq> Null \<and> isValidMove g r c (g ! r ! c) = Inr False) ps,
          n + length (filter (\<lambda>(r, c). g ! r ! c \<noteq> Null) ps))"
    using Cons by simp
  show ?case
    by (simp add: p g b IH)
qed

lemma length_filter_full:
  "(length (filter P xs) = length xs) = (\<forall>x \<in> set xs. P x)"
  by (metis filter_id_conv length_filter_less less_irrefl)

lemma validateGrid_shape9:
  assumes "shape9 g"
  shows "\<exists>res. validateGrid g = Inr res \<and>
           conflicts res =
             filter (\<lambda>(r, c). g ! r ! c \<noteq> Null \<and> isValidMove g r c (g ! r ! c) = Inr False)
                    getAllPositions \<and>
           isValid res = (conflicts res = []) \<and>
           isCompleted res = (conflicts res = [] \<and> (\<forall>r<9. \<forall>c<9. g ! r ! c \<noteq> Null))"
proof -
  have full: "(length (filter (\<lambda>(r, c). g ! r ! c \<noteq> Null) getAllPositions) = 81) =
              (\<forall>r<9. \<forall>c<9. g ! r ! c \<noteq> Null)"
    using length_filter_full[of "\<lambda>(r, c). g ! r ! c \<noteq> Null" getAllPositions]
    by (auto simp: length_getAllPositions set_getAllPositions)
  have "validateLoop g getAllPositions [] 0 =
     Inr ([] @ filter (\<lambda>(r, c). g ! r ! c \<noteq> Null \<and> isValidMove g r c (g ! r ! c) = Inr False) getAllPositions,
          0 + length (filter (\<lambda>(r, c). g ! r ! c \<noteq> Null) getAllPositions))"
    by (rule validateLoop_in_range) (use assms in \<open>auto simp: set_getAllPositions\<close>)
  then show ?thesis
    by (simp add: validateGrid_def GRID_SIZE_def full)
qed

lemma validateGrid_total: "shape9 g \<Longrightarrow> \<exists>res. validateGrid g = Inr res"
  using validateGrid_shape9 by blast

lemma shape9_exampleConflict: "shape9 exampleConflict"
  by (simp add: shape9_def exampleConflict_def)

text \<open>
  Claim C5. On a nine-by-nine grid, for a row and a column in [0,8] and any value,
  \<open>isValidMove\<close> returns without raising; it returns true when the value is empty, and
  otherwise it returns false exactly when the value occurs at some cell other than
  \<open>(row, col)\<close> in the same row, the same column or the same 3x3 box.
\<close>

theorem isValidMove_spec:
  assumes "shape9 g" and "row < 9" and "col < 9"
  shows "isValidMove g row col num =
           Inr (num = Null \<or>
                \<not> (\<exists>r<9. \<exists>c<9. (r \<noteq> row \<or> c \<noteq> col) \<and>
                       (r = row \<or> c = col \<or> (r div 3 = row div 3 \<and> c div 3 = col div 3)) \<and>
                       g ! r ! c = num))"
  using assms by (rule isValidMove_shape9)

theorem isValidMove_spec_witness:
  "shape9 exampleConflict \<and> (0::nat) < 9 \<and> (1::nat) < 9 \<and>
   isValidMove exampleConflict 0 1 (Num 5) = Inr False \<and>
   isValidMove exampleConflict 0 1 Null = Inr True \<and>
   isValidMove exampleConflict 0 0 (Num 6) = Inr True"
proof -
  note T = isValidMove_spec[OF shape9_exampleConflict]
  have c: "exampleConflict ! 0 ! 0 = Num 5" by (simp add: exampleConflict_def)
  have "\<exists>r<9. \<exists>c<9. (r \<noteq> 0 \<or> c \<noteq> 1) \<and>
           (r = 0 \<or> c = 1 \<or> (r div 3 = 0 div 3 \<and> c div 3 = 1 div 3)) \<and>
           exampleConflict ! r ! c = Num 5"
    using c by (intro exI[of _ 0] conjI) simp_all
  then have a: "isValidMove exampleConflict 0 1 (Num 5) = Inr False"
    using T[of 0 1 "Num 5"] by simp
  have b: "isValidMove exampleConflict 0 1 Null = Inr True"
    using T[of 0 1 Null] by simp
  have d: "isValidMove exampleConflict 0 0 (Num 6) = Inr True"
    by code_simp
  show ?thesis using a b d shape9_exampleConflict by simp
qed

text \<open>
  Claim C6. On a nine-by-nine grid \<open>validateGrid\<close> returns a result whose conflict list
  holds, in row-major order, exactly the non-empty cells whose own value fails
  \<open>isValidMove\<close> against the grid; the validity flag is true exactly when that list is
  empty, and the completion flag is true exactly when the list is empty and none of the
  81 cells is empty.
\<close>

theorem validateGrid_spec:
  assumes "shape9 g"
  shows "\<exists>res. validateGrid g = Inr res \<and>
           conflicts res =
             filter (\<lambda>(r, c). g ! r ! c \<noteq> Null \<and> isValidMove g r c (g ! r ! c) = Inr False)
                    getAllPositions \<and>
           isValid res = (conflicts res = []) \<and>
           isCompleted res = (conflicts res = [] \<and> (\<forall>r<9. \<forall>c<9. g ! r ! c \<noteq> Null))"
  using assms by (rule validateGrid_shape9)

lemma validateGrid_exampleConflict:
  "validateGrid exampleConflict =
     Inr \<lparr> isValid = False, conflicts = [(0, 0), (0, 4)], isCompleted = False \<rparr>"
  by code_simp

theorem validateGrid_spec_witness:
  "shape9 exampleConflict \<and>
   (\<exists>res. validateGrid exampleConflict = Inr res \<and> conflicts res = [(0, 0), (0, 4)] \<and>
          \<not> isValid res \<and> \<not> isCompleted res)"
proof -
  from validateGrid_spec[OF shape9_exampleConflict] obtain res where
    res: "validateGrid exampleConflict = Inr res"
      "isValid res = (conflicts res = [])"
      "isCompleted res = (conflicts res = [] \<and> (\<forall>r<9. \<forall>c<9. exampleConflict ! r ! c \<noteq> Null))"
    by blast
  have c: "conflicts res = [(0, 0), (0, 4)]"
    using res(1) validateGrid_exampleConflict by auto
  show ?thesis using res c shape9_exampleConflict by simp
qed

section \<open>Properties of the game manager\<close>



lemma setCell_shape9:
  "shape9 g \<Longrightarrow> r < 9 \<Longrightarrow> c < 9 \<Longrightarrow> setCell g r c v = Inr (g[r := (g ! r)[c := v]])"
  by (simp add: setCell_def setIndex_def shape9_nth shape9_length)

lemma shape9_update: "shape9 g \<Longrightarrow> shape9 (g[r := (g ! r)[c := v]])"
proof -
  assume s: "shape9 g"
  have "length (g[r := (g ! r)[c := v]] ! n) = 9" if "n < 9" for n
    using that s by (cases "n = r") (simp_all add: shape9_nth shape9_length)
  then show ?thesis using s by (simp add: shape9_def list_all_length)
qed

lemma getCellAt_cases:
  assumes "shape9 g"
  shows "getCellAt g row col =
     (if row < 0 \<or> 8 < row then Inl TypeError
      else if col < 0 \<or> 8 < col then Inr Undefined
      else Inr (g ! nat row ! nat col))"
proof -
  have l: "length g = 9" using assms by (rule shape9_length)
  show ?thesis
  proof (cases "0 \<le> row \<and> row \<le> 8")
    case False
    then show ?thesis by (auto simp: getCellAt_def getCell_def l)
  next
    case True
    then have r: "nat row < 9" by auto
    then have lr: "length (g ! nat row) = 9" using assms by (simp add: shape9_nth)
    show ?thesis using True r by (auto simp: getCellAt_def getCell_def l lr)
  qed
qed

text \<open>What a successful move leaves behind.\<close>

lemma makeMove_success:
  assumes "gameData m = Some d" and "sessionOk d"
    and "makeMove row col v t1 t2 m = (Inr True, m1)"
  shows "\<exists>d1. gameData m1 = Some d1 \<and> nat row < 9 \<and> nat col < 9 \<and>
           grid d1 = (grid d)[nat row := (grid d ! nat row)[nat col := v]] \<and>
           moveHistory d1 = moveHistory d @
              [\<lparr> position = (nat row, nat col), previousValue = grid d ! nat row ! nat col,
                 newValue = v, timestamp = t1 \<rparr>] \<and>
           originalGrid d1 = originalGrid d"
proof -
  have sg: "shape9 (grid d)" and so: "shape9 (originalGrid d)"
    using assms(2) by (simp_all add: sessionOk_def)
  have play: "gameState m = Playing"
    using assms(1,3) by (auto simp: makeMove_def split: if_splits)
  have rng: "0 \<le> row \<and> row \<le> 8 \<and> 0 \<le> col \<and> col \<le> 8"
    using assms(1,3) play by (auto simp: makeMove_def getCellAt_cases[OF so] split: if_splits)
  then have r: "nat row < 9" and c: "nat col < 9" by auto
  define g' where "g' = (grid d)[nat row := (grid d ! nat row)[nat col := v]]"
  define mv where "mv = \<lparr> position = (nat row, nat col), previousValue = grid d ! nat row ! nat col,
                          newValue = v, timestamp = t1 \<rparr>"
  define d1 where "d1 = d\<lparr> grid := g', moveHistory := moveHistory d @ [mv] \<rparr>"
  have sg': "shape9 g'" unfolding g'_def using sg by (rule shape9_update)
  obtain res where res: "validateGrid g' = Inr res" using validateGrid_total[OF sg'] by blast
  have m1: "m1 = m\<lparr> gameData := Some d1 \<rparr> \<or> m1 = completeGame t2 (m\<lparr> gameData := Some d1 \<rparr>)"
    using assms(1,3) play rng res
    by (auto simp: makeMove_def getCellAt_cases[OF so] getCell_shape9[OF sg r c]
        setCell_shape9[OF sg r c] validateGame_def d1_def g'_def mv_def Let_def split: if_splits)
  then show ?thesis
    using r c
    by (auto simp: completeGame_def stopTimer_def setGameState_def d1_def g'_def mv_def)
qed

text \<open>What \<open>undoMove\<close> does on a session with a move to undo.\<close>

lemma undoMove_pops:
  assumes "gameData m = Some d" and "shape9 (grid d)" and "moveHistory d \<noteq> []"
    and "fst (position (last (moveHistory d))) < 9"
    and "snd (position (last (moveHistory d))) < 9"
  shows "undoMove m =
          (Inr True,
           m\<lparr> gameData := Some (d\<lparr> moveHistory := butlast (moveHistory d),
                 grid := (grid d)[fst (position (last (moveHistory d))) :=
                    (grid d ! fst (position (last (moveHistory d))))
                      [snd (position (last (moveHistory d))) :=
                         previousValue (last (moveHistory d))]] \<rparr>) \<rparr>)"
proof -
  obtain r c where rc: "position (last (moveHistory d)) = (r, c)"
    by (cases "position (last (moveHistory d))")
  have r: "r < 9" and c: "c < 9" using assms(4,5) rc by simp_all
  obtain res where res: "validateGrid ((grid d)[r := (grid d ! r)[c := previousValue (last (moveHistory d))]]) = Inr res"
    using validateGrid_total[OF shape9_update[OF assms(2)]] by blast
  show ?thesis
    using assms(1,3) r c res
    by (simp add: undoMove_def Let_def rc setCell_shape9[OF assms(2)] validateGame_def)
qed

lemma call_originalGrid:
  "map_option originalGrid (gameData (call c m)) = map_option originalGrid (gameData m)"
proof (cases c)
  case (MakeMove row col v t1 t2)
  then show ?thesis
    by (auto simp: makeMove_def completeGame_def stopTimer_def setGameState_def Let_def
        split: option.splits sum.splits)
next
  case UndoMove
  then show ?thesis
    by (auto simp: undoMove_def Let_def split: option.splits sum.splits prod.splits)
next
  case (PauseGame now)
  then show ?thesis by (simp add: pauseGame_def stopTimer_def setGameState_def)
next
  case (ResumeGame now)
  then show ?thesis by (simp add: resumeGame_def startTimer_def stopTimer_def setGameState_def Let_def)
next
  case (GetHint pick)
  then show ?thesis by (simp add: getHint_def split: option.splits)
next
  case ValidateGame
  then show ?thesis by simp
next
  case (TimerTick now)
  then show ?thesis by (simp add: timerTick_def split: option.splits)
qed

text \<open>The sessions that the theorems below are about are the ones the manager builds:
  \<open>startNewGame\<close> on a nine-by-nine puzzle yields one, and every call keeps it one.\<close>

lemma startNewGame_ok:
  assumes "shape9 puzzle"
  shows "managerOk (snd (startNewGame (puzzle, sol) diff gid t1 t2 m)) \<and>
         fst (startNewGame (puzzle, sol) diff gid t1 t2 m) = Inr () \<and>
         gameState (snd (startNewGame (puzzle, sol) diff gid t1 t2 m)) = Playing \<and>
         map_option originalGrid (gameData (snd (startNewGame (puzzle, sol) diff gid t1 t2 m)))
           = Some puzzle"
proof -
  obtain res where "validateGrid puzzle = Inr res" using validateGrid_total[OF assms] by blast
  then show ?thesis
    using assms
    by (simp add: startNewGame_def Let_def validateGame_def startTimer_def stopTimer_def
        setGameState_def cloneGrid_def managerOk_def sessionOk_def)
qed

lemma dispose_clears: "gameData (dispose m) = None \<and> gameState (dispose m) = Menu"
  by (simp add: dispose_def stopTimer_def)

lemma completeGame_data:
  "gameData m = Some d \<Longrightarrow>
   \<exists>d'. gameData (completeGame t m) = Some d' \<and> grid d' = grid d \<and>
        originalGrid d' = originalGrid d \<and> moveHistory d' = moveHistory d"
  by (simp add: completeGame_def stopTimer_def setGameState_def)

lemma makeMove_managerOk:
  assumes "managerOk m"
  shows "managerOk (snd (makeMove row col v t1 t2 m))"
proof (cases "gameData m")
  case None
  then show ?thesis using assms by (simp add: makeMove_def)
next
  case (Some d)
  have ok: "sessionOk d" using assms Some by (simp add: managerOk_def)
  show ?thesis
  proof (cases "fst (makeMove row col v t1 t2 m) = Inr True")
    case True
    then have mk: "makeMove row col v t1 t2 m = (Inr True, snd (makeMove row col v t1 t2 m))"
      by (simp add: prod_eq_iff)
    from makeMove_success[OF Some ok mk] obtain d1 where
      d1: "gameData (snd (makeMove row col v t1 t2 m)) = Some d1" "nat row < 9" "nat col < 9"
        "grid d1 = (grid d)[nat row := (grid d ! nat row)[nat col := v]]"
        "moveHistory d1 = moveHistory d @
              [\<lparr> position = (nat row, nat col), previousValue = grid d ! nat row ! nat col,
                 newValue = v, timestamp = t1 \<rparr>]"
        "originalGrid d1 = originalGrid d"
      by blast
    have "sessionOk d1"
      using ok d1(2,3) shape9_update[of "grid d" "nat row" "nat col" v]
      by (simp add: sessionOk_def d1(4,5,6))
    then show ?thesis by (simp add: managerOk_def d1(1))
  next
    case False
    have sg: "shape9 (grid d)" and so: "shape9 (originalGrid d)"
      using ok by (simp_all add: sessionOk_def)
    have "snd (makeMove row col v t1 t2 m) = m"
    proof (cases "gameState m = Playing \<and> 0 \<le> row \<and> row \<le> 8 \<and> 0 \<le> col \<and> col \<le> 8 \<and>
                   originalGrid d ! nat row ! nat col = Null")
      case False
      then show ?thesis
        using Some by (auto simp: makeMove_def getCellAt_cases[OF so])
    next
      case True
      then have r: "nat row < 9" and c: "nat col < 9" by auto
      obtain res where res:
        "validateGrid ((grid d)[nat row := (grid d ! nat row)[nat col := v]]) = Inr res"
        using validateGrid_total[OF shape9_update[OF sg]] by blast
      have "fst (makeMove row col v t1 t2 m) = Inr True"
        using Some True res
        by (simp add: makeMove_def getCellAt_cases[OF so] getCell_shape9[OF sg r c]
            setCell_shape9[OF sg r c] validateGame_def Let_def)
      then show ?thesis using False by simp
    qed
    then show ?thesis using assms by simp
  qed
qed

lemma undoMove_managerOk:
  assumes "managerOk m"
  shows "managerOk (snd (undoMove m))"
proof (cases "gameData m")
  case None
  then show ?thesis using assms by (simp add: undoMove_def)
next
  case (Some d)
  have ok: "sessionOk d" using assms Some by (simp add: managerOk_def)
  then have sg: "shape9 (grid d)" by (simp add: sessionOk_def)
  show ?thesis
  proof (cases "moveHistory d = []")
    case True
    then show ?thesis using Some assms by (simp add: undoMove_def)
  next
    case False
    then have "last (moveHistory d) \<in> set (moveHistory d)" by simp
    then have "fst (position (last (moveHistory d))) < 9" "snd (position (last (moveHistory d))) < 9"
      using ok by (auto simp: sessionOk_def list_all_iff)
    from undoMove_pops[OF Some sg False this]
    show ?thesis
      using ok shape9_update[OF sg] in_set_butlastD[of _ "moveHistory d"]
      by (auto simp: managerOk_def sessionOk_def list_all_iff)
  qed
qed

lemma call_managerOk: "managerOk m \<Longrightarrow> managerOk (call c m)"
proof (cases c)
  case (MakeMove row col v t1 t2)
  assume "managerOk m"
  then show ?thesis using MakeMove makeMove_managerOk by simp
next
  case UndoMove
  assume "managerOk m"
  then show ?thesis using UndoMove undoMove_managerOk by simp
next
  case (PauseGame now)
  assume "managerOk m"
  then show ?thesis using PauseGame
    by (simp add: managerOk_def pauseGame_def stopTimer_def setGameState_def)
next
  case (ResumeGame now)
  assume "managerOk m"
  then show ?thesis using ResumeGame
    by (simp add: managerOk_def resumeGame_def startTimer_def stopTimer_def setGameState_def Let_def)
next
  case (GetHint pick)
  assume "managerOk m"
  then show ?thesis using GetHint by (simp add: getHint_def split: option.splits)
next
  case ValidateGame
  assume "managerOk m"
  then show ?thesis using ValidateGame by simp
next
  case (TimerTick now)
  assume "managerOk m"
  then show ?thesis using TimerTick
    by (auto simp: managerOk_def timerTick_def sessionOk_def split: option.splits)
qed

lemma calls_managerOk: "managerOk m \<Longrightarrow> managerOk (calls cs m)"
  by (induction cs arbitrary: m) (simp_all add: call_managerOk)

lemma shape9_examplePuzzle: "shape9 examplePuzzle"
  by (simp add: shape9_def examplePuzzle_def)

lemma sessionOk_exampleData: "sessionOk exampleData"
  by (simp add: sessionOk_def exampleData_def shape9_examplePuzzle)

lemma gameData_exampleManager: "gameData exampleManager = Some exampleData"
  by (simp add: exampleManager_def)

text \<open>
  Claim C3, as it is stated, fails on the code: a row outside [0,8] in a playing session
  makes \<^verbatim>\<open>originalGrid[row]\<close> undefined, and the column lookup on it throws a TypeError
  instead of returning false. Here with row 9:
\<close>

theorem makeMove_row_out_of_range_counterexample:
  "gameData exampleManager = Some exampleData \<and> sessionOk exampleData \<and>
   gameState exampleManager = Playing \<and>
   makeMove 9 0 (Num 1) 2000 2001 exampleManager = (Inl TypeError, exampleManager)"
  by (simp add: sessionOk_exampleData gameData_exampleManager makeMove_def getCellAt_def
        getCell_def)
     (simp add: exampleManager_def exampleData_def examplePuzzle_def)

text \<open>
  Claim C3, amended. On a session with nine-by-nine grids, \<open>makeMove\<close> returns false,
  raises nothing and leaves the whole manager (so the current grid and the move
  history) unchanged when the state is not playing, or the row is in [0,8] and the
  column is not, or the position is in range and the original grid is non-empty there.
  When the state is playing and the row is outside [0,8] it throws a TypeError, the
  manager again unchanged.
\<close>

theorem makeMove_rejected:
  assumes "gameData m = Some d" and "sessionOk d"
  shows "(gameState m \<noteq> Playing \<or>
          (0 \<le> row \<and> row \<le> 8 \<and> (col < 0 \<or> 8 < col)) \<or>
          (0 \<le> row \<and> row \<le> 8 \<and> 0 \<le> col \<and> col \<le> 8 \<and>
             originalGrid d ! nat row ! nat col \<noteq> Null)
          \<longrightarrow> makeMove row col v t1 t2 m = (Inr False, m)) \<and>
         (gameState m = Playing \<and> (row < 0 \<or> 8 < row)
          \<longrightarrow> makeMove row col v t1 t2 m = (Inl TypeError, m))"
proof -
  have s: "shape9 (originalGrid d)" using assms(2) by (simp add: sessionOk_def)
  show ?thesis
    using assms(1) by (auto simp: makeMove_def getCellAt_cases[OF s])
qed

theorem makeMove_rejected_witness:
  "gameData exampleManager = Some exampleData \<and> sessionOk exampleData \<and>
   makeMove 0 1 (Num 5) 2000 2001 exampleManager = (Inr False, exampleManager) \<and>
   makeMove 0 9 (Num 5) 2000 2001 exampleManager = (Inr False, exampleManager) \<and>
   makeMove (- 1) 0 (Num 5) 2000 2001 exampleManager = (Inl TypeError, exampleManager)"
proof -
  have p: "gameState exampleManager = Playing" by (simp add: exampleManager_def)
  have g: "originalGrid exampleData ! nat 0 ! nat 1 \<noteq> Null"
    by (simp add: exampleData_def examplePuzzle_def)
  note T = makeMove_rejected[OF gameData_exampleManager sessionOk_exampleData]
  have "makeMove 0 1 (Num 5) 2000 2001 exampleManager = (Inr False, exampleManager)"
    using T[of 0 1 "Num 5" 2000 2001] g by simp
  moreover have "makeMove 0 9 (Num 5) 2000 2001 exampleManager = (Inr False, exampleManager)"
    using T[of 0 9 "Num 5" 2000 2001] by simp
  moreover have "makeMove (- 1) 0 (Num 5) 2000 2001 exampleManager = (Inl TypeError, exampleManager)"
    using T[of "- 1" 0 "Num 5" 2000 2001] p by simp
  ultimately show ?thesis
    using gameData_exampleManager sessionOk_exampleData by simp
qed

text \<open>
  Claim C4. In a session with nine-by-nine grids, whenever \<open>makeMove\<close> succeeds (which
  needs the playing state and an editable position), the \<open>undoMove\<close> that follows
  succeeds and leaves the current grid equal to the grid before the move, the move
  history being the one before the move as well; on such a session \<open>undoMove\<close> returns
  false exactly when the move history is empty; and when it is not empty, \<open>undoMove\<close>
  drops the last move and writes that move's recorded previous value at its position.
\<close>

theorem undoMove_inverts_makeMove:
  assumes "gameData m = Some d" and "sessionOk d"
  shows "(makeMove row col v t1 t2 m = (Inr True, m1) \<longrightarrow>
           (\<exists>m2 d2. undoMove m1 = (Inr True, m2) \<and> gameData m2 = Some d2 \<and>
                    grid d2 = grid d \<and> moveHistory d2 = moveHistory d)) \<and>
         (fst (undoMove m) = Inr False) = (moveHistory d = []) \<and>
         (moveHistory d \<noteq> [] \<longrightarrow>
           (\<exists>d'. gameData (snd (undoMove m)) = Some d' \<and>
                 moveHistory d' = butlast (moveHistory d) \<and>
                 grid d' = (grid d)[fst (position (last (moveHistory d))) :=
                    (grid d ! fst (position (last (moveHistory d))))
                      [snd (position (last (moveHistory d))) :=
                         previousValue (last (moveHistory d))]]))"
proof (intro conjI impI)
  assume mk: "makeMove row col v t1 t2 m = (Inr True, m1)"
  have sg: "shape9 (grid d)" using assms(2) by (simp add: sessionOk_def)
  obtain d1 where d1: "gameData m1 = Some d1" "nat row < 9" "nat col < 9"
      "grid d1 = (grid d)[nat row := (grid d ! nat row)[nat col := v]]"
      "moveHistory d1 = moveHistory d @
              [\<lparr> position = (nat row, nat col), previousValue = grid d ! nat row ! nat col,
                 newValue = v, timestamp = t1 \<rparr>]"
    using makeMove_success[OF assms mk] by blast
  have sg1: "shape9 (grid d1)" unfolding d1(4) using sg by (rule shape9_update)
  have restored: "(grid d1)[nat row := (grid d1 ! nat row)[nat col := grid d ! nat row ! nat col]] = grid d"
    using d1(2,3) sg by (simp add: d1(4) shape9_length list_update_id)
  show "\<exists>m2 d2. undoMove m1 = (Inr True, m2) \<and> gameData m2 = Some d2 \<and>
                    grid d2 = grid d \<and> moveHistory d2 = moveHistory d"
    using undoMove_pops[OF d1(1) sg1] d1(2,3) restored by (simp add: d1(5))
next
  have sg: "shape9 (grid d)" using assms(2) by (simp add: sessionOk_def)
  show "(fst (undoMove m) = Inr False) = (moveHistory d = [])"
  proof (cases "moveHistory d = []")
    case True
    then show ?thesis using assms(1) by (simp add: undoMove_def)
  next
    case False
    then have "last (moveHistory d) \<in> set (moveHistory d)" by simp
    then have "fst (position (last (moveHistory d))) < 9" "snd (position (last (moveHistory d))) < 9"
      using assms(2) by (auto simp: sessionOk_def list_all_iff)
    from undoMove_pops[OF assms(1) sg False this] show ?thesis using False by simp
  qed
next
  assume ne: "moveHistory d \<noteq> []"
  have sg: "shape9 (grid d)" using assms(2) by (simp add: sessionOk_def)
  from ne have "last (moveHistory d) \<in> set (moveHistory d)" by simp
  then have "fst (position (last (moveHistory d))) < 9" "snd (position (last (moveHistory d))) < 9"
    using assms(2) by (auto simp: sessionOk_def list_all_iff)
  from undoMove_pops[OF assms(1) sg ne this]
  show "\<exists>d'. gameData (snd (undoMove m)) = Some d' \<and>
                 moveHistory d' = butlast (moveHistory d) \<and>
                 grid d' = (grid d)[fst (position (last (moveHistory d))) :=
                    (grid d ! fst (position (last (moveHistory d))))
                      [snd (position (last (moveHistory d))) :=
                         previousValue (last (moveHistory d))]]"
    by simp
qed

lemma makeMove_example: "fst (makeMove 0 0 (Num 7) 2000 2001 exampleManager) = Inr True"
  by code_simp

theorem undoMove_inverts_makeMove_witness:
  "gameData exampleManager = Some exampleData \<and> sessionOk exampleData \<and>
   fst (makeMove 0 0 (Num 7) 2000 2001 exampleManager) = Inr True \<and>
   (\<exists>m2 d2. undoMove (snd (makeMove 0 0 (Num 7) 2000 2001 exampleManager)) = (Inr True, m2) \<and>
            gameData m2 = Some d2 \<and> grid d2 = examplePuzzle \<and> moveHistory d2 = []) \<and>
   fst (undoMove exampleManager) = Inr False"
proof -
  have mk: "makeMove 0 0 (Num 7) 2000 2001 exampleManager =
            (Inr True, snd (makeMove 0 0 (Num 7) 2000 2001 exampleManager))"
    using makeMove_example by (simp add: prod_eq_iff)
  have e: "grid exampleData = examplePuzzle" "moveHistory exampleData = []"
    by (simp_all add: exampleData_def)
  from undoMove_inverts_makeMove[OF gameData_exampleManager sessionOk_exampleData,
      of 0 0 "Num 7" 2000 2001 "snd (makeMove 0 0 (Num 7) 2000 2001 exampleManager)"]
  show ?thesis
    using mk makeMove_example gameData_exampleManager sessionOk_exampleData by (simp add: e)
qed

text \<open>
  Claim C8. Whatever sequence of \<open>makeMove\<close>, \<open>undoMove\<close>, \<open>pauseGame\<close>, \<open>resumeGame\<close>,
  \<open>getHint\<close> and \<open>validateGame\<close> calls (and timer callbacks) runs on a manager, with any
  arguments and whether or not a call throws, the original grid of its session is the
  one it had before: no session appears or disappears, and every cell of
  \<open>originalGrid\<close> keeps its value.
\<close>

theorem originalGrid_never_mutated:
  "map_option originalGrid (gameData (calls cs m)) = map_option originalGrid (gameData m)"
  by (induction cs arbitrary: m) (simp_all add: call_originalGrid)

text \<open>
  Claim C9. \<open>pauseGame\<close> takes the state playing to paused and is the identity on the
  manager in every other state; \<open>resumeGame\<close> takes paused to playing and is the
  identity otherwise; neither touches the session data (current grid, move history);
  and from playing, pausing and then resuming ends in playing.
\<close>

theorem pause_resume_spec:
  "(gameState m = Playing \<longrightarrow> gameState (pauseGame now m) = Paused) \<and>
   (gameState m \<noteq> Playing \<longrightarrow> pauseGame now m = m) \<and>
   (gameState m = Paused \<longrightarrow> gameState (resumeGame now m) = Playing) \<and>
   (gameState m \<noteq> Paused \<longrightarrow> resumeGame now m = m) \<and>
   gameData (pauseGame now m) = gameData m \<and>
   gameData (resumeGame now m) = gameData m \<and>
   (gameState m = Playing \<longrightarrow> gameState (resumeGame now' (pauseGame now m)) = Playing)"
  by (simp add: pauseGame_def resumeGame_def startTimer_def stopTimer_def setGameState_def Let_def)

theorem pause_resume_spec_witness:
  "gameState exampleManager = Playing \<and>
   gameState (pauseGame 5000 exampleManager) = Paused \<and>
   gameState (resumeGame 9000 (pauseGame 5000 exampleManager)) = Playing \<and>
   resumeGame 9000 exampleManager = exampleManager \<and>
   pauseGame 9000 (pauseGame 5000 exampleManager) = pauseGame 5000 exampleManager \<and>
   gameData (pauseGame 5000 exampleManager) = Some exampleData"
proof -
  have p: "gameState exampleManager = Playing" by (simp add: exampleManager_def)
  from pause_resume_spec[of exampleManager 5000 9000] p
  have a: "gameState (pauseGame 5000 exampleManager) = Paused"
    "gameState (resumeGame 9000 (pauseGame 5000 exampleManager)) = Playing"
    "gameData (pauseGame 5000 exampleManager) = Some exampleData"
    by (simp_all add: gameData_exampleManager)
  from pause_resume_spec[of exampleManager 9000 9000] p
  have b: "resumeGame 9000 exampleManager = exampleManager" by simp
  from pause_resume_spec[of "pauseGame 5000 exampleManager" 9000 9000] a(1)
  have c: "pauseGame 9000 (pauseGame 5000 exampleManager) = pauseGame 5000 exampleManager" by simp
  show ?thesis using p a b c by simp
qed

text \<open>
  Claim C10. On a manager whose session, if any, has nine-by-nine grids and recorded
  moves inside the grid, \<open>undoMove\<close> returns false exactly when there is no session or
  the move history is empty; it never changes the game state; and whenever a session
  has a move to undo, in any state, it returns true, drops the last move and writes
  that move's previous value at its position in the current grid.
\<close>

theorem undoMove_any_state:
  assumes "managerOk m"
  shows "(fst (undoMove m) = Inr False) =
           (gameData m = None \<or> (\<exists>d. gameData m = Some d \<and> moveHistory d = [])) \<and>
         gameState (snd (undoMove m)) = gameState m \<and>
         (\<forall>d. gameData m = Some d \<and> moveHistory d \<noteq> [] \<longrightarrow>
            fst (undoMove m) = Inr True \<and>
            (\<exists>d'. gameData (snd (undoMove m)) = Some d' \<and>
                  moveHistory d' = butlast (moveHistory d) \<and>
                  grid d' = (grid d)[fst (position (last (moveHistory d))) :=
                    (grid d ! fst (position (last (moveHistory d))))
                      [snd (position (last (moveHistory d))) :=
                         previousValue (last (moveHistory d))]]))"
proof (cases "gameData m")
  case None
  then show ?thesis by (simp add: undoMove_def)
next
  case (Some d)
  have ok: "sessionOk d" using assms Some by (simp add: managerOk_def)
  then have sg: "shape9 (grid d)" by (simp add: sessionOk_def)
  show ?thesis
  proof (cases "moveHistory d = []")
    case True
    then show ?thesis using Some by (simp add: undoMove_def)
  next
    case False
    then have "last (moveHistory d) \<in> set (moveHistory d)" by simp
    then have "fst (position (last (moveHistory d))) < 9" "snd (position (last (moveHistory d))) < 9"
      using ok by (auto simp: sessionOk_def list_all_iff)
    from undoMove_pops[OF Some sg False this] show ?thesis using False Some by simp
  qed
qed

lemma exampleCompleted_state: "gameState exampleCompleted = Completed"
  by code_simp

lemma exampleCompleted_ok: "managerOk exampleCompleted"
  by code_simp

lemma exampleCompleted_moves:
  "map_option (\<lambda>d. length (moveHistory d)) (gameData exampleCompleted) = Some 2"
  by code_simp

lemma exampleCompleted_data: "\<exists>d. gameData exampleCompleted = Some d \<and> moveHistory d \<noteq> []"
  using exampleCompleted_moves by auto

theorem undoMove_any_state_witness:
  "managerOk exampleCompleted \<and> gameState exampleCompleted = Completed \<and>
   fst (undoMove exampleCompleted) = Inr True \<and>
   gameState (snd (undoMove exampleCompleted)) = Completed \<and>
   managerOk newGameManager \<and> fst (undoMove newGameManager) = Inr False"
proof -
  have n: "managerOk newGameManager" "gameData newGameManager = None"
    by (simp_all add: managerOk_def newGameManager_def)
  from undoMove_any_state[OF exampleCompleted_ok] exampleCompleted_data
  have a: "fst (undoMove exampleCompleted) = Inr True"
    "gameState (snd (undoMove exampleCompleted)) = Completed"
    by (auto simp: exampleCompleted_state)
  from undoMove_any_state[OF n(1)] n(2)
  have b: "fst (undoMove newGameManager) = Inr False" by simp
  show ?thesis using a b n(1) exampleCompleted_ok exampleCompleted_state by simp
qed

section \<open>Properties of the solver\<close>

lemma all_positions_iff:
  "list_all P getAllPositions = (\<forall>r<9. \<forall>c<9. P (r, c))"
  by (auto simp: list_all_iff set_getAllPositions)

lemma mem_peers:
  "((r, c) \<in> set (peers row col)) =
     (r < 9 \<and> c < 9 \<and> (r \<noteq> row \<or> c \<noteq> col) \<and>
      (r = row \<or> c = col \<or> (r div 3 = row div 3 \<and> c div 3 = col div 3)))"
  by (auto simp: peers_def set_getAllPositions)

lemma peers_sym: "row < 9 \<Longrightarrow> col < 9 \<Longrightarrow> (r, c) \<in> set (peers row col) \<Longrightarrow> (row, col) \<in> set (peers r c)"
  by (auto simp: mem_peers)

lemma clashes_iff:
  "clashes g row col = (\<exists>(r, c) \<in> set (peers row col). g ! r ! c = g ! row ! col)"
  by (simp add: clashes_def list_ex_iff)

lemma isValidMove_peers:
  assumes "shape9 g" and "row < 9" and "col < 9"
  shows "isValidMove g row col num =
           Inr (num = Null \<or> \<not> (\<exists>(r, c) \<in> set (peers row col). g ! r ! c = num))"
proof -
  have "(\<exists>(r, c) \<in> set (peers row col). g ! r ! c = num) =
        (\<exists>r<9. \<exists>c<9. (r \<noteq> row \<or> c \<noteq> col) \<and>
                       (r = row \<or> c = col \<or> (r div 3 = row div 3 \<and> c div 3 = col div 3)) \<and>
                       g ! r ! c = num)"
  proof -
    have "(\<exists>(r, c) \<in> set (peers row col). g ! r ! c = num) =
          (\<exists>r c. (r, c) \<in> set (peers row col) \<and> g ! r ! c = num)"
      by auto
    also have "\<dots> = (\<exists>r<9. \<exists>c<9. (r \<noteq> row \<or> c \<noteq> col) \<and>
                       (r = row \<or> c = col \<or> (r div 3 = row div 3 \<and> c div 3 = col div 3)) \<and>
                       g ! r ! c = num)"
      unfolding mem_peers by blast
    finally show ?thesis .
  qed
  then show ?thesis using isValidMove_shape9[OF assms] by simp
qed

lemma fills_iff:
  "fills s g = (shape9 s \<and> (\<forall>r<9. \<forall>c<9.
       if g ! r ! c = Null then cellInRange (s ! r ! c) \<and> \<not> clashes s r c
       else s ! r ! c = g ! r ! c))"
  by (simp add: fills_def all_positions_iff)

lemma findEmpty_None:
  "findEmpty g ps = Inr None \<Longrightarrow> \<forall>(r, c) \<in> set ps. getCell g r c \<noteq> Inr Null"
  by (induction ps) (auto split: sum.splits if_splits)

lemma findEmpty_total:
  "\<forall>(r, c) \<in> set ps. r < length g \<Longrightarrow> \<exists>x. findEmpty g ps = Inr x"
  by (induction ps) (auto simp: getCell_def)

lemma findEmpty_shape9:
  assumes "shape9 g"
  shows "(findEmpty g getAllPositions = Inr None \<and> (\<forall>r<9. \<forall>c<9. g ! r ! c \<noteq> Null)) \<or>
         (\<exists>row col. findEmpty g getAllPositions = Inr (Some (row, col)) \<and>
                     row < 9 \<and> col < 9 \<and> g ! row ! col = Null)"
proof -
  have "\<forall>(r, c) \<in> set getAllPositions. r < length g"
    using assms by (auto simp: set_getAllPositions shape9_length)
  then obtain x where x: "findEmpty g getAllPositions = Inr x"
    using findEmpty_total by blast
  show ?thesis
  proof (cases x)
    case None
    have "g ! r ! c \<noteq> Null" if "r < 9" "c < 9" for r c
      using findEmpty_None[OF x[unfolded None]] that getCell_shape9[OF assms that]
      by (auto simp: set_getAllPositions)
    then show ?thesis using x None by simp
  next
    case (Some p)
    obtain row col where p: "p = (row, col)" by (cases p)
    from findEmpty_Some[OF x[unfolded Some p]]
    have "getCell g row col = Inr Null" "row < 9" "col < 9"
      by (auto simp: set_getAllPositions)
    then show ?thesis using x Some p getCell_shape9[OF assms, of row col] by auto
  qed
qed

text \<open>The copy loop overwrites exactly the cells it visits.\<close>

lemma copyCells_in_range:
  "shape9 w \<Longrightarrow> shape9 r \<Longrightarrow> \<forall>(i, j) \<in> set ps. i < 9 \<and> j < 9 \<Longrightarrow>
   \<exists>r'. copyCells w r ps = Inr r' \<and> shape9 r' \<and>
     (\<forall>i<9. \<forall>j<9. r' ! i ! j = (if (i, j) \<in> set ps then w ! i ! j else r ! i ! j))"
proof (induction ps arbitrary: r)
  case Nil
  then show ?case by simp
next
  case (Cons p ps)
  obtain row col where p: "p = (row, col)" by (cases p)
  have rc: "row < 9" "col < 9" using Cons.prems(3) p by auto
  define r1 where "r1 = r[row := (r ! row)[col := w ! row ! col]]"
  have s1: "shape9 r1" unfolding r1_def using Cons.prems(2) by (rule shape9_update)
  have step: "copyCells w r (p # ps) = copyCells w r1 ps"
    using rc Cons.prems(1,2)
    by (simp add: p getCell_shape9 setCell_shape9 r1_def)
  from Cons.IH[OF Cons.prems(1) s1] Cons.prems(3)
  obtain r' where r': "copyCells w r1 ps = Inr r'" "shape9 r'"
    "\<forall>i<9. \<forall>j<9. r' ! i ! j = (if (i, j) \<in> set ps then w ! i ! j else r1 ! i ! j)"
    by auto
  have r1_nth: "r1 ! i ! j = (if (i, j) = (row, col) then w ! row ! col else r ! i ! j)"
    if "i < 9" "j < 9" for i j
    using that rc Cons.prems(2)
    by (auto simp: r1_def nth_list_update shape9_length shape9_nth)
  have "\<forall>i<9. \<forall>j<9. r' ! i ! j = (if (i, j) \<in> set (p # ps) then w ! i ! j else r ! i ! j)"
    using r'(3) r1_nth by (auto simp: p)
  then show ?case using step r'(1,2) by simp
qed

lemma shape9_ext:
  assumes "shape9 a" and "shape9 b" and "\<forall>i<9. \<forall>j<9. a ! i ! j = b ! i ! j"
  shows "a = b"
proof (rule nth_equalityI)
  show "length a = length b" using assms(1,2) by (simp add: shape9_length)
next
  fix i assume "i < length a"
  then have i: "i < 9" using assms(1) by (simp add: shape9_length)
  show "a ! i = b ! i"
  proof (rule nth_equalityI)
    show "length (a ! i) = length (b ! i)" using i assms(1,2) by (simp add: shape9_nth)
  next
    fix j assume "j < length (a ! i)"
    then have "j < 9" using i assms(1) by (simp add: shape9_nth)
    then show "a ! i ! j = b ! i ! j" using i assms(3) by simp
  qed
qed

lemma copyCells_all:
  assumes "shape9 w" and "shape9 r"
  shows "copyCells w r getAllPositions = Inr w"
proof -
  from copyCells_in_range[OF assms, of getAllPositions]
  obtain r' where r': "copyCells w r getAllPositions = Inr r'" "shape9 r'"
    "\<forall>i<9. \<forall>j<9. r' ! i ! j = (if (i, j) \<in> set getAllPositions then w ! i ! j else r ! i ! j)"
    by (auto simp: set_getAllPositions)
  have "r' = w"
    by (rule shape9_ext[OF r'(2) assms(1)]) (use r'(3) in \<open>auto simp: set_getAllPositions\<close>)
  then show ?thesis using r'(1) by simp
qed


lemma nth_update_cell:
  assumes "shape9 w" and "i < 9" and "j < 9" and "row < 9" and "col < 9"
  shows "w[row := (w ! row)[col := v]] ! i ! j = (if i = row \<and> j = col then v else w ! i ! j)"
  using assms by (auto simp: nth_list_update shape9_length shape9_nth)

lemma update_cell_same:
  assumes "shape9 w" and "row < 9" and "col < 9" and "w ! row ! col = v"
  shows "w[row := (w ! row)[col := v]] = w"
proof -
  have "(w ! row)[col := v] = w ! row" using assms(4) by (metis list_update_id)
  then show ?thesis by simp
qed

lemma update_cell_twice:
  "w1 = w[row := (w ! row)[col := a]] \<Longrightarrow>
   w1[row := (w1 ! row)[col := b]] = w[row := (w ! row)[col := b]]"
  by (cases "row < length w") (simp_all add: list_update_beyond)

lemma cellInRange_Num: "cellInRange (Num n) = (1 \<le> n \<and> n \<le> 9)"
  by (simp add: cellInRange_def)

lemma cellInRange_not_Null: "cellInRange v \<Longrightarrow> v \<noteq> Null"
  by (auto simp: cellInRange_def)

lemma fills_self: "shape9 w \<Longrightarrow> \<forall>r<9. \<forall>c<9. w ! r ! c \<noteq> Null \<Longrightarrow> fills w w"
  by (simp add: fills_iff)

lemma fills_step:
  assumes w: "shape9 w" and rc: "row < 9" "col < 9" and e: "w ! row ! col = Null"
    and n: "1 \<le> num" "num \<le> 9"
    and ok: "\<not> (\<exists>(r, c) \<in> set (peers row col). w ! r ! c = Num num)"
    and f: "fills s (w[row := (w ! row)[col := Num num]])"
  shows "fills s w"
proof -
  let ?w1 = "w[row := (w ! row)[col := Num num]]"
  have s: "shape9 s" using f by (simp add: fills_iff)
  have w1: "?w1 ! i ! j = (if i = row \<and> j = col then Num num else w ! i ! j)"
    if "i < 9" "j < 9" for i j
    using nth_update_cell[OF w that rc] .
  have f1: "if ?w1 ! i ! j = Null then cellInRange (s ! i ! j) \<and> \<not> clashes s i j
            else s ! i ! j = ?w1 ! i ! j" if "i < 9" "j < 9" for i j
    using f that by (simp add: fills_iff)
  have here: "s ! row ! col = Num num" using f1[OF rc] w1[OF rc] by simp
  have "if w ! i ! j = Null then cellInRange (s ! i ! j) \<and> \<not> clashes s i j
        else s ! i ! j = w ! i ! j" if ij: "i < 9" "j < 9" for i j
  proof (cases "i = row \<and> j = col")
    case False
    then show ?thesis using f1[OF ij] w1[OF ij] by auto
  next
    case True
    have "\<not> clashes s row col"
    proof
      assume "clashes s row col"
      then obtain a b where ab: "(a, b) \<in> set (peers row col)" "s ! a ! b = Num num"
        using here by (auto simp: clashes_iff)
      have ab9: "a < 9" "b < 9" and ne: "\<not> (a = row \<and> b = col)"
        using ab(1) by (auto simp: mem_peers)
      show False
      proof (cases "w ! a ! b = Null")
        case True
        then have "\<not> clashes s a b" using f1[OF ab9] w1[OF ab9] ne by auto
        moreover have "(row, col) \<in> set (peers a b)" using peers_sym[OF rc ab(1)] .
        ultimately show False using ab(2) here by (auto simp: clashes_iff)
      next
        case False
        then have "s ! a ! b = w ! a ! b" using f1[OF ab9] w1[OF ab9] ne by auto
        then show False using ok ab by auto
      qed
    qed
    then show ?thesis using True e here n by (simp add: cellInRange_Num)
  qed
  then show ?thesis using s by (simp add: fills_iff)
qed

lemma fills_valid:
  assumes w: "shape9 w" and rc: "row < 9" "col < 9" and e: "w ! row ! col = Null"
    and f: "fills s w"
  shows "\<not> (\<exists>(r, c) \<in> set (peers row col). w ! r ! c = s ! row ! col)"
proof
  assume "\<exists>(r, c) \<in> set (peers row col). w ! r ! c = s ! row ! col"
  then obtain a b where ab: "(a, b) \<in> set (peers row col)" "w ! a ! b = s ! row ! col" by auto
  have ab9: "a < 9" "b < 9" using ab(1) by (auto simp: mem_peers)
  have here: "cellInRange (s ! row ! col)" "\<not> clashes s row col"
    using f rc e by (auto simp: fills_iff)
  then have "w ! a ! b \<noteq> Null" using ab(2) cellInRange_not_Null by auto
  then have "s ! a ! b = w ! a ! b" using f ab9 by (auto simp: fills_iff)
  then show False using here(2) ab by (auto simp: clashes_iff)
qed

lemma fills_extend:
  assumes w: "shape9 w" and rc: "row < 9" "col < 9" and f: "fills s w"
  shows "fills s (w[row := (w ! row)[col := s ! row ! col]])"
proof -
  have "if w ! row ! col = Null then cellInRange (s ! row ! col) \<and> \<not> clashes s row col
        else s ! row ! col = w ! row ! col"
    using f rc by (simp add: fills_iff)
  then have "cellInRange (s ! row ! col) \<or> s ! row ! col = w ! row ! col"
    by (auto split: if_splits)
  moreover
  { assume "s ! row ! col = w ! row ! col"
    then have "w[row := (w ! row)[col := s ! row ! col]] = w"
      using update_cell_same[OF w rc] by simp
    then have ?thesis using f by simp }
  moreover
  { assume c: "cellInRange (s ! row ! col)"
    have "if w[row := (w ! row)[col := s ! row ! col]] ! i ! j = Null
            then cellInRange (s ! i ! j) \<and> \<not> clashes s i j
            else s ! i ! j = w[row := (w ! row)[col := s ! row ! col]] ! i ! j"
      if ij: "i < 9" "j < 9" for i j
      using f ij c cellInRange_not_Null
      by (auto simp: nth_update_cell[OF w ij rc] fills_iff)
    then have ?thesis using f by (simp add: fills_iff) }
  ultimately show ?thesis by blast
qed


text \<open>On nine-by-nine grids the search returns; a failed search leaves both grids as
  they were, a successful one leaves the same full grid in both, and that grid fills
  the working grid it started from.\<close>

lemma solve_sound:
  "shape9 w \<Longrightarrow> shape9 r \<Longrightarrow>
     \<exists>b w' r'. solveRecursive w r = Inr (b, w', r') \<and>
       (if b then r' = w' \<and> fills w' w else w' = w \<and> r' = r)"
  "shape9 w \<Longrightarrow> shape9 r \<Longrightarrow> row < 9 \<Longrightarrow> col < 9 \<Longrightarrow> w ! row ! col = Null \<Longrightarrow>
     \<forall>n \<in> set nums. 1 \<le> n \<and> n \<le> 9 \<Longrightarrow>
     \<exists>b w' r'. tryNums row col nums w r = Inr (b, w', r') \<and>
       (if b then r' = w' \<and> fills w' w else w' = w \<and> r' = r)"
proof (induct w r and row col nums w r rule: solveRecursive_tryNums.induct)
  case (1 w r)
  from findEmpty_shape9[OF "1.prems"(1)] show ?case
  proof (elim disjE conjE exE)
    assume fe: "findEmpty w getAllPositions = Inr None" and full: "\<forall>r<9. \<forall>c<9. w ! r ! c \<noteq> Null"
    have "solveRecursive w r = Inr (True, w, w)"
      using fe copyCells_all[OF "1.prems"] by (simp add: solveRecursive.simps)
    then show ?thesis using fills_self[OF "1.prems"(1) full] by auto
  next
    fix row col
    assume fe: "findEmpty w getAllPositions = Inr (Some (row, col))"
      and rc: "row < 9" "col < 9" and e: "w ! row ! col = Null"
    have "solveRecursive w r = tryNums row col [1..<10] w r"
      using fe by (simp add: solveRecursive.simps)
    moreover have "\<forall>n \<in> set [1..<10]. 1 \<le> n \<and> n \<le> (9::nat)" by auto
    ultimately show ?thesis
      using "1.hyps"[OF fe refl refl "1.prems" rc e] by simp
  qed
next
  case (2 row col w r)
  then show ?case by auto
next
  case (3 row col num nums w r)
  note w = "3.prems"(1) and r = "3.prems"(2) and rc = "3.prems"(3,4) and e = "3.prems"(5)
  have n: "1 \<le> num" "num \<le> 9" and ns: "\<forall>n \<in> set nums. 1 \<le> n \<and> n \<le> 9"
    using "3.prems"(6) by auto
  define ok where "ok = (\<not> (\<exists>(r, c) \<in> set (peers row col). w ! r ! c = Num num))"
  have v: "isValidMove w row col (Num num) = Inr ok"
    using isValidMove_peers[OF w rc] by (simp add: ok_def)
  show ?case
  proof (cases ok)
    case False
    from "3.hyps"(3)[OF v False w r rc e ns] show ?thesis using v False by simp
  next
    case True
    define w1 where "w1 = w[row := (w ! row)[col := Num num]]"
    have sc: "setCell w row col (Num num) = Inr w1"
      using setCell_shape9[OF w rc] by (simp add: w1_def)
    have s1: "shape9 w1" unfolding w1_def using w by (rule shape9_update)
    from "3.hyps"(1)[OF v True sc s1 r] obtain b w2 r2 where
      rec: "solveRecursive w1 r = Inr (b, w2, r2)"
      and res: "if b then r2 = w2 \<and> fills w2 w1 else w2 = w1 \<and> r2 = r"
      by blast
    show ?thesis
    proof (cases b)
      case True
      then have f1: "fills w2 w1" and r2: "r2 = w2" using res by simp_all
      have s2: "shape9 w2" using f1 by (simp add: fills_iff)
      have "w1 ! row ! col = Num num" using nth_update_cell[OF w rc rc] by (simp add: w1_def)
      then have here: "w2 ! row ! col = Num num" using f1 rc by (auto simp: fills_iff)
      have "setCell r2 row col (Num num) = Inr w2"
        using setCell_shape9[OF s2 rc] update_cell_same[OF s2 rc here] by (simp add: r2)
      then have "tryNums row col (num # nums) w r = Inr (True, w2, w2)"
        using v \<open>ok\<close> sc rec True by simp
      moreover have "fills w2 w"
        using fills_step[OF w rc e n _ f1[unfolded w1_def]] \<open>ok\<close> by (simp add: ok_def)
      ultimately show ?thesis by auto
    next
      case False
      then have w2: "w2 = w1" and r2: "r2 = r" using res by simp_all
      have "w1[row := (w1 ! row)[col := Null]] = w"
        using update_cell_twice[OF w1_def, of Null] update_cell_same[OF w rc e] by simp
      then have reset: "setCell w2 row col Null = Inr w"
        using setCell_shape9[OF s1 rc] by (simp add: w2)
      have sr2: "shape9 r2" using r r2 by simp
      note IH = "3.hyps"(2)[OF v \<open>ok\<close> sc rec refl refl False reset w sr2 rc e ns]
      have eq: "tryNums row col (num # nums) w r = tryNums row col nums w r"
        using v \<open>ok\<close> sc rec False reset r2 by simp
      show ?thesis unfolding eq using IH[unfolded r2] .
    qed
  qed
qed


text \<open>Whenever some grid fills the working grid, the search succeeds.\<close>

lemma solve_complete:
  "shape9 w \<Longrightarrow> shape9 r \<Longrightarrow> fills s w \<Longrightarrow>
     \<exists>w' r'. solveRecursive w r = Inr (True, w', r')"
  "shape9 w \<Longrightarrow> shape9 r \<Longrightarrow> row < 9 \<Longrightarrow> col < 9 \<Longrightarrow> w ! row ! col = Null \<Longrightarrow>
     fills s w \<Longrightarrow> \<exists>n \<in> set nums. s ! row ! col = Num n \<Longrightarrow>
     \<forall>n \<in> set nums. 1 \<le> n \<and> n \<le> 9 \<Longrightarrow>
     \<exists>w' r'. tryNums row col nums w r = Inr (True, w', r')"
proof (induct w r and row col nums w r rule: solveRecursive_tryNums.induct)
  case (1 w r)
  from findEmpty_shape9[OF "1.prems"(1)] show ?case
  proof (elim disjE conjE exE)
    assume fe: "findEmpty w getAllPositions = Inr None"
    have "solveRecursive w r = Inr (True, w, w)"
      using fe copyCells_all[OF "1.prems"(1,2)] by (simp add: solveRecursive.simps)
    then show ?thesis by blast
  next
    fix row col
    assume fe: "findEmpty w getAllPositions = Inr (Some (row, col))"
      and rc: "row < 9" "col < 9" and e: "w ! row ! col = Null"
    have eq: "solveRecursive w r = tryNums row col [1..<10] w r"
      using fe by (simp add: solveRecursive.simps)
    have "cellInRange (s ! row ! col)" using "1.prems"(3) rc e by (auto simp: fills_iff)
    then have a: "\<exists>n \<in> set [1..<10]. s ! row ! col = Num n"
      by (auto simp: cellInRange_def split: CellValue.splits)
    have b: "\<forall>n \<in> set [1..<10]. 1 \<le> n \<and> n \<le> (9::nat)" by auto
    show ?thesis
      unfolding eq using "1.hyps"[OF fe refl refl "1.prems"(1,2) rc e "1.prems"(3) a b] .
  qed
next
  case (2 row col w r)
  then show ?case by simp
next
  case (3 row col num nums w r)
  note w = "3.prems"(1) and r = "3.prems"(2) and rc = "3.prems"(3,4) and e = "3.prems"(5)
    and f = "3.prems"(6)
  have ns: "\<forall>n \<in> set nums. 1 \<le> n \<and> n \<le> 9" using "3.prems"(8) by auto
  define ok where "ok = (\<not> (\<exists>(r, c) \<in> set (peers row col). w ! r ! c = Num num))"
  have v: "isValidMove w row col (Num num) = Inr ok"
    using isValidMove_peers[OF w rc] by (simp add: ok_def)
  have later: "\<exists>n \<in> set nums. s ! row ! col = Num n" if "s ! row ! col \<noteq> Num num"
    using "3.prems"(7) that by auto
  show ?case
  proof (cases ok)
    case False
    have "s ! row ! col \<noteq> Num num"
      using fills_valid[OF w rc e f] False by (auto simp: ok_def)
    from "3.hyps"(3)[OF v False w r rc e f later[OF this] ns] show ?thesis
      using v False by simp
  next
    case True
    define w1 where "w1 = w[row := (w ! row)[col := Num num]]"
    have sc: "setCell w row col (Num num) = Inr w1"
      using setCell_shape9[OF w rc] by (simp add: w1_def)
    have s1: "shape9 w1" unfolding w1_def using w by (rule shape9_update)
    from solve_sound(1)[OF s1 r] obtain b w2 r2 where
      rec: "solveRecursive w1 r = Inr (b, w2, r2)"
      and res: "if b then r2 = w2 \<and> fills w2 w1 else w2 = w1 \<and> r2 = r"
      by blast
    show ?thesis
    proof (cases b)
      case True
      then have "shape9 r2" using res by (simp add: fills_iff)
      then obtain r3 where "setCell r2 row col (Num num) = Inr r3"
        using setCell_shape9[OF _ rc] by blast
      then have "tryNums row col (num # nums) w r = Inr (True, w2, r3)"
        using v \<open>ok\<close> sc rec True by simp
      then show ?thesis by blast
    next
      case False
      then have w2: "w2 = w1" and r2: "r2 = r" using res by simp_all
      have "w1[row := (w1 ! row)[col := Null]] = w"
        using update_cell_twice[OF w1_def, of Null] update_cell_same[OF w rc e] by simp
      then have reset: "setCell w2 row col Null = Inr w"
        using setCell_shape9[OF s1 rc] by (simp add: w2)
      have "s ! row ! col \<noteq> Num num"
      proof
        assume "s ! row ! col = Num num"
        then have "fills s w1" using fills_extend[OF w rc f] by (simp add: w1_def)
        from "3.hyps"(1)[OF v \<open>ok\<close> sc s1 r this] show False using rec False by simp
      qed
      note l = later[OF this]
      have sr2: "shape9 r2" using r r2 by simp
      note IH = "3.hyps"(2)[OF v \<open>ok\<close> sc rec refl refl False reset w sr2 rc e f l ns]
      have eq: "tryNums row col (num # nums) w r = tryNums row col nums w r"
        using v \<open>ok\<close> sc rec False reset r2 by simp
      show ?thesis unfolding eq using IH[unfolded r2] .
    qed
  qed
qed

text \<open>A failed search has not written to the result grid, whatever the grids are.\<close>

lemma solve_frame:
  "solveRecursive w r = Inr (False, w', r') \<Longrightarrow> r' = r"
  "tryNums row col nums w r = Inr (False, w', r') \<Longrightarrow> r' = r"
proof (induct w r and row col nums w r arbitrary: w' r' and w' r'
    rule: solveRecursive_tryNums.induct)
  case (1 w r)
  from "1.prems" obtain row col where
    fe: "findEmpty w getAllPositions = Inr (Some (row, col))"
    and t: "tryNums row col [1..<10] w r = Inr (False, w', r')"
    by (auto simp: solveRecursive.simps split: sum.splits option.splits)
  from "1.hyps"[OF fe refl refl t] show ?case .
next
  case (2 row col w r)
  then show ?case by simp
next
  case (3 row col num nums w r)
  note res = "3.prems"[unfolded tryNums.simps]
  from res obtain ok where ok: "isValidMove w row col (Num num) = Inr ok"
    by (auto split: sum.splits)
  show ?case
  proof (cases ok)
    case False
    with res ok have "tryNums row col nums w r = Inr (False, w', r')" by simp
    from "3.hyps"(3)[OF ok False this] show ?thesis .
  next
    case True
    with res ok obtain w1 where w1: "setCell w row col (Num num) = Inr w1"
      by (auto split: sum.splits)
    with res ok True obtain b wa ra where rec: "solveRecursive w1 r = Inr (b, wa, ra)"
      by (auto split: sum.splits)
    have b: "\<not> b" using res ok True w1 rec by (auto split: sum.splits)
    from "3.hyps"(1)[OF ok True w1] rec b have ra: "ra = r" by simp
    from res ok True w1 rec b obtain w3 where w3: "setCell wa row col Null = Inr w3"
      and t: "tryNums row col nums w3 ra = Inr (False, w', r')"
      by (auto split: sum.splits)
    from "3.hyps"(2)[OF ok True w1 rec refl refl b w3 t] ra show ?thesis by simp
  qed
qed

lemma fills_iff_solved:
  assumes g: "isGrid g" and cf: "conflictFree g"
  shows "fills s g = (solved s \<and> completes s g)"
proof
  assume "solved s \<and> completes s g"
  then show "fills s g"
    by (auto simp: fills_iff solved_def completes_def isGrid_def conflictFree_def all_positions_iff)
next
  assume f: "fills s g"
  have sg: "shape9 g" using g by (simp add: isGrid_def)
  have gt: "g ! r ! c = Null \<or> cellInRange (g ! r ! c)" if "r < 9" "c < 9" for r c
    using g that by (simp add: isGrid_def all_positions_iff)
  have gc: "g ! r ! c = Null \<or> \<not> clashes g r c" if "r < 9" "c < 9" for r c
    using cf that by (simp add: conflictFree_def all_positions_iff)
  have ss: "shape9 s" using f by (simp add: fills_iff)
  have fc: "if g ! r ! c = Null then cellInRange (s ! r ! c) \<and> \<not> clashes s r c
            else s ! r ! c = g ! r ! c" if "r < 9" "c < 9" for r c
    using f that by (simp add: fills_iff)
  have rng: "cellInRange (s ! r ! c)" if "r < 9" "c < 9" for r c
    using fc[OF that] gt[OF that] by (auto split: if_splits)
  have nc: "\<not> clashes s r c" if rc: "r < 9" "c < 9" for r c
  proof (cases "g ! r ! c = Null")
    case True
    then show ?thesis using fc[OF rc] by simp
  next
    case False
    then have here: "s ! r ! c = g ! r ! c" using fc[OF rc] by simp
    show ?thesis
    proof
      assume "clashes s r c"
      then obtain a b where ab: "(a, b) \<in> set (peers r c)" "s ! a ! b = s ! r ! c"
        by (auto simp: clashes_iff)
      have ab9: "a < 9" "b < 9" using ab(1) by (auto simp: mem_peers)
      show False
      proof (cases "g ! a ! b = Null")
        case True
        then have "\<not> clashes s a b" using fc[OF ab9] by simp
        moreover have "(r, c) \<in> set (peers a b)" using peers_sym[OF rc ab(1)] .
        ultimately show False using ab(2) by (auto simp: clashes_iff)
      next
        case False
        then have "s ! a ! b = g ! a ! b" using fc[OF ab9] by simp
        then have "clashes g r c" using ab here by (auto simp: clashes_iff)
        then show False using gc[OF rc] \<open>g ! r ! c \<noteq> Null\<close> by simp
      qed
    qed
  qed
  have "isGrid s" using ss rng by (simp add: isGrid_def all_positions_iff)
  moreover have "\<forall>r<9. \<forall>c<9. s ! r ! c \<noteq> Null" using rng cellInRange_not_Null by blast
  moreover have "conflictFree s" using nc by (simp add: conflictFree_def all_positions_iff)
  moreover have "g ! r ! c = Null \<or> s ! r ! c = g ! r ! c" if "r < 9" "c < 9" for r c
    using fc[OF that] by (cases "g ! r ! c = Null") simp_all
  then have "completes s g" by (simp add: completes_def all_positions_iff)
  ultimately show "solved s \<and> completes s g" by (simp add: solved_def all_positions_iff)
qed

lemma solvePuzzle_shape9:
  assumes "shape9 g"
  shows "\<exists>b g'. solvePuzzle g = Inr (b, g') \<and> b = (\<exists>s. fills s g) \<and>
           (if b then fills g' g else g' = g)"
proof -
  from solve_sound(1)[OF assms assms] obtain b w' r' where
    rec: "solveRecursive g g = Inr (b, w', r')"
    and res: "if b then r' = w' \<and> fills w' g else w' = g \<and> r' = g"
    by blast
  have sp: "solvePuzzle g = Inr (b, r')" using rec by (simp add: solvePuzzle_def cloneGrid_def)
  have "b = (\<exists>s. fills s g)"
  proof (cases b)
    case True
    then show ?thesis using res by auto
  next
    case False
    have "\<not> (\<exists>s. fills s g)"
    proof
      assume "\<exists>s. fills s g"
      then obtain s where "fills s g" by blast
      from solve_complete(1)[OF assms assms this] show False using rec False by simp
    qed
    then show ?thesis using False by simp
  qed
  then show ?thesis using sp res by auto
qed

lemma solvePuzzle_exampleFullInvalid:
  "solvePuzzle exampleFullInvalid = Inr (True, exampleFullInvalid)"
  by code_simp

text \<open>
  Claim C7, as it is stated, fails in one direction: the search tests a value
  only when it places it, so cells that are filled on entry are never checked against
  each other. On a full grid with a repeated value \<open>solvePuzzle\<close> finds no empty cell and
  returns true, although no completion satisfies the constraints.
\<close>

theorem solvePuzzle_full_invalid_counterexample:
  "solvePuzzle exampleFullInvalid = Inr (True, exampleFullInvalid) \<and>
   \<not> (\<exists>s. solved s \<and> completes s exampleFullInvalid)"
proof -
  have "\<not> (solved s \<and> completes s exampleFullInvalid)" for s
  proof
    assume a: "solved s \<and> completes s exampleFullInvalid"
    have c: "\<And>r c. r < 9 \<Longrightarrow> c < 9 \<Longrightarrow>
        exampleFullInvalid ! r ! c = Null \<or> s ! r ! c = exampleFullInvalid ! r ! c"
      using a by (simp add: completes_def all_positions_iff)
    have "s ! 0 ! 0 = Num 2" using c[of 0 0] by (simp add: exampleFullInvalid_def)
    moreover have "s ! 0 ! 1 = Num 2" using c[of 0 1] by (simp add: exampleFullInvalid_def)
    moreover have "(0, 1) \<in> set (peers 0 0)" by (simp add: mem_peers)
    ultimately have "clashes s 0 0" by (auto simp: clashes_iff)
    moreover have "\<And>r c. r < 9 \<Longrightarrow> c < 9 \<Longrightarrow> s ! r ! c = Null \<or> \<not> clashes s r c"
      using a by (auto simp: solved_def conflictFree_def all_positions_iff)
    then have "s ! 0 ! 0 = Null \<or> \<not> clashes s 0 0" by simp
    ultimately show False using \<open>s ! 0 ! 0 = Num 2\<close> by simp
  qed
  then show ?thesis using solvePuzzle_exampleFullInvalid by blast
qed

text \<open>
  Claim C7, amended. For every nine-by-nine grid \<open>solvePuzzle\<close> returns, and it returns
  false exactly when no full grid keeps the filled cells of the input and puts into each
  empty cell a value 1..9 that does not repeat in its row, column or box; on success it
  has written such a grid over the input. For the grids of the declared type whose
  filled cells do not repeat in any row, column or box this says: it returns false
  exactly when no solved grid completes the input, and on success the grid left in place
  is a solved completion. For every grid whatever, when \<open>solvePuzzle\<close> returns false the
  input grid is unchanged.
\<close>

theorem solvePuzzle_spec:
  "(shape9 g \<longrightarrow>
      (\<exists>b g'. solvePuzzle g = Inr (b, g') \<and> b = (\<exists>s. fills s g) \<and>
         (if b then fills g' g else g' = g))) \<and>
   (isGrid g \<and> conflictFree g \<longrightarrow>
      (\<exists>b g'. solvePuzzle g = Inr (b, g') \<and>
         (b = False) = (\<not> (\<exists>s. solved s \<and> completes s g)) \<and>
         (b \<longrightarrow> solved g' \<and> completes g' g))) \<and>
   (\<forall>g'. solvePuzzle g = Inr (False, g') \<longrightarrow> g' = g)"
proof (intro conjI impI allI)
  assume "shape9 g"
  then show "\<exists>b g'. solvePuzzle g = Inr (b, g') \<and> b = (\<exists>s. fills s g) \<and>
         (if b then fills g' g else g' = g)"
    by (rule solvePuzzle_shape9)
next
  assume a: "isGrid g \<and> conflictFree g"
  then have sg: "shape9 g" by (simp add: isGrid_def)
  from solvePuzzle_shape9[OF sg] obtain b g' where
    sp: "solvePuzzle g = Inr (b, g')" "b = (\<exists>s. fills s g)" "if b then fills g' g else g' = g"
    by blast
  have eq: "\<And>s. fills s g = (solved s \<and> completes s g)"
    using fills_iff_solved a by blast
  have "(b = False) = (\<not> (\<exists>s. solved s \<and> completes s g))"
    using sp(2) eq by simp
  moreover have "b \<longrightarrow> solved g' \<and> completes g' g"
    using sp(3) eq[of g'] by (cases b) simp_all
  ultimately show "\<exists>b g'. solvePuzzle g = Inr (b, g') \<and>
         (b = False) = (\<not> (\<exists>s. solved s \<and> completes s g)) \<and>
         (b \<longrightarrow> solved g' \<and> completes g' g)"
    using sp(1) by blast
next
  fix g' assume "solvePuzzle g = Inr (False, g')"
  then obtain w' where "solveRecursive (cloneGrid g) g = Inr (False, w', g')"
    by (auto simp: solvePuzzle_def Let_def split: sum.splits)
  from solve_frame(1)[OF this] show "g' = g" .
qed

lemma examplePuzzle_grid: "isGrid examplePuzzle \<and> conflictFree examplePuzzle"
  by code_simp

lemma exampleUnsolvable_grid: "isGrid exampleUnsolvable \<and> conflictFree exampleUnsolvable"
  by code_simp

lemma solvePuzzle_examplePuzzle: "solvePuzzle examplePuzzle = Inr (True, exampleSolution)"
  by code_simp

lemma solvePuzzle_exampleUnsolvable:
  "solvePuzzle exampleUnsolvable = Inr (False, exampleUnsolvable)"
  by code_simp

theorem solvePuzzle_spec_witness:
  "isGrid examplePuzzle \<and> conflictFree examplePuzzle \<and>
   solvePuzzle examplePuzzle = Inr (True, exampleSolution) \<and>
   solved exampleSolution \<and> completes exampleSolution examplePuzzle \<and>
   isGrid exampleUnsolvable \<and> conflictFree exampleUnsolvable \<and>
   solvePuzzle exampleUnsolvable = Inr (False, exampleUnsolvable) \<and>
   \<not> (\<exists>s. solved s \<and> completes s exampleUnsolvable)"
proof -
  from solvePuzzle_spec[of examplePuzzle] examplePuzzle_grid solvePuzzle_examplePuzzle
  have a: "solved exampleSolution \<and> completes exampleSolution examplePuzzle" by auto
  from solvePuzzle_spec[of exampleUnsolvable] exampleUnsolvable_grid solvePuzzle_exampleUnsolvable
  have b: "\<not> (\<exists>s. solved s \<and> completes s exampleUnsolvable)" by auto
  show ?thesis
    using a b examplePuzzle_grid exampleUnsolvable_grid solvePuzzle_examplePuzzle
      solvePuzzle_exampleUnsolvable by simp
qed

section \<open>Properties of the generator\<close>

subsection \<open>The uniqueness check\<close>

lemma fills_full:
  assumes "shape9 g" and "\<forall>r<9. \<forall>c<9. g ! r ! c \<noteq> Null"
  shows "fills s g = (s = g)"
proof
  assume "fills s g"
  then have "shape9 s" "\<forall>i<9. \<forall>j<9. s ! i ! j = g ! i ! j"
    using assms(2) by (auto simp: fills_iff)
  then show "s = g" using shape9_ext[OF _ assms(1)] by blast
next
  assume "s = g"
  then show "fills s g" using fills_self[OF assms] by simp
qed

lemma fills_cell_value:
  assumes "fills s g" and "row < 9" and "col < 9" and "g ! row ! col = Null"
  shows "\<exists>n \<in> set [1..<10]. s ! row ! col = Num n"
proof -
  have "cellInRange (s ! row ! col)" using assms by (auto simp: fills_iff)
  then show ?thesis by (auto simp: cellInRange_def split: CellValue.splits)
qed

lemma fills_placed:
  assumes w: "shape9 w" and rc: "row < 9" "col < 9" and e: "w ! row ! col = Null"
    and n: "1 \<le> num" "num \<le> 9"
    and ok: "\<not> (\<exists>(r, c) \<in> set (peers row col). w ! r ! c = Num num)"
  shows "fills s (w[row := (w ! row)[col := Num num]]) = (fills s w \<and> s ! row ! col = Num num)"
proof
  assume f: "fills s (w[row := (w ! row)[col := Num num]])"
  have "w[row := (w ! row)[col := Num num]] ! row ! col = Num num"
    using nth_update_cell[OF w rc rc] by simp
  then have "s ! row ! col = Num num" using f rc by (auto simp: fills_iff)
  then show "fills s w \<and> s ! row ! col = Num num"
    using fills_step[OF w rc e n ok f] by simp
next
  assume "fills s w \<and> s ! row ! col = Num num"
  then show "fills s (w[row := (w ! row)[col := Num num]])"
    using fills_extend[OF w rc, of s] by auto
qed

text \<open>The search for all solutions restores the grid, and appends to the solutions
  found so far a list without repetitions of grids that fill the given one; unless the
  limit has been reached, that list holds every such grid.\<close>

lemma findAll_count:
  "shape9 g \<Longrightarrow>
     \<exists>F. findAllSolutions g sols m = Inr (g, sols @ F) \<and> distinct F \<and>
         set F \<subseteq> {s. fills s g} \<and>
         (length (sols @ F) < m \<longrightarrow> set F = {s. fills s g})"
  "shape9 g \<Longrightarrow> row < 9 \<Longrightarrow> col < 9 \<Longrightarrow> g ! row ! col = Null \<Longrightarrow> distinct nums \<Longrightarrow>
     \<forall>n \<in> set nums. 1 \<le> n \<and> n \<le> 9 \<Longrightarrow>
     \<exists>F. tryAll row col nums g sols m = Inr (g, sols @ F) \<and> distinct F \<and>
         set F \<subseteq> {s. fills s g \<and> (\<exists>n \<in> set nums. s ! row ! col = Num n)} \<and>
         (length (sols @ F) < m \<longrightarrow>
            set F = {s. fills s g \<and> (\<exists>n \<in> set nums. s ! row ! col = Num n)})"
proof (induct g sols m and row col nums g sols m rule: findAllSolutions_tryAll.induct)
  case (1 g sols m)
  show ?case
  proof (cases "m \<le> length sols")
    case True
    then have "findAllSolutions g sols m = Inr (g, sols @ [])"
      by (simp add: findAllSolutions.simps)
    then show ?thesis using True by (intro exI[of _ "[]"]) simp
  next
    case False
    from findEmpty_shape9[OF "1.prems"] show ?thesis
    proof (elim disjE conjE exE)
      assume fe: "findEmpty g getAllPositions = Inr None"
        and full: "\<forall>r<9. \<forall>c<9. g ! r ! c \<noteq> Null"
      have "findAllSolutions g sols m = Inr (g, sols @ [g])"
        using fe False by (simp add: findAllSolutions.simps cloneGrid_def)
      moreover have "{s. fills s g} = {g}" using fills_full[OF "1.prems" full] by auto
      ultimately show ?thesis by (intro exI[of _ "[g]"]) simp
    next
      fix row col
      assume fe: "findEmpty g getAllPositions = Inr (Some (row, col))"
        and rc: "row < 9" "col < 9" and e: "g ! row ! col = Null"
      have eq: "findAllSolutions g sols m = tryAll row col [1..<10] g sols m"
        using fe False by (simp add: findAllSolutions.simps)
      have d: "distinct [1..<10::nat]" by simp
      have b: "\<forall>n \<in> set [1..<10]. 1 \<le> n \<and> n \<le> (9::nat)" by auto
      have c: "{s. fills s g \<and> (\<exists>n \<in> set [1..<10]. s ! row ! col = Num n)} = {s. fills s g}"
        using fills_cell_value[OF _ rc e] by blast
      show ?thesis
        unfolding eq using "1.hyps"[OF False fe refl refl "1.prems" rc e d b] unfolding c .
    qed
  qed
next
  case (2 row col g sols m)
  show ?case by (intro exI[of _ "[]"]) simp
next
  case (3 row col num nums g sols m)
  note w = "3.prems"(1) and rc = "3.prems"(2,3) and e = "3.prems"(4)
  have n: "1 \<le> num" "num \<le> 9" and ns: "\<forall>n \<in> set nums. 1 \<le> n \<and> n \<le> 9"
    and dn: "distinct nums" and nn: "num \<notin> set nums"
    using "3.prems"(5,6) by auto
  define ok where "ok = (\<not> (\<exists>(r, c) \<in> set (peers row col). g ! r ! c = Num num))"
  have v: "isValidMove g row col (Num num) = Inr ok"
    using isValidMove_peers[OF w rc] by (simp add: ok_def)
  let ?C = "\<lambda>ns. {s. fills s g \<and> (\<exists>n \<in> set ns. s ! row ! col = Num n)}"
  show ?case
  proof (cases ok)
    case False
    have none: "\<not> (fills s g \<and> s ! row ! col = Num num)" for s
      using fills_valid[OF w rc e, of s] False by (auto simp: ok_def)
    then have c: "?C (num # nums) = ?C nums" by auto
    have eq: "tryAll row col (num # nums) g sols m = tryAll row col nums g sols m"
      using v False by simp
    show ?thesis
      unfolding eq c using "3.hyps"(3)[OF v False w rc e dn ns] .
  next
    case True
    define g1 where "g1 = g[row := (g ! row)[col := Num num]]"
    have sc: "setCell g row col (Num num) = Inr g1"
      using setCell_shape9[OF w rc] by (simp add: g1_def)
    have s1: "shape9 g1" unfolding g1_def using w by (rule shape9_update)
    have c1: "{s. fills s g1} = {s. fills s g \<and> s ! row ! col = Num num}"
      using fills_placed[OF w rc e n] True by (auto simp: ok_def g1_def)
    from "3.hyps"(1)[OF v True sc s1] obtain F1 where
      rec: "findAllSolutions g1 sols m = Inr (g1, sols @ F1)" and d1: "distinct F1"
      and sub1: "set F1 \<subseteq> {s. fills s g1}"
      and all1: "length (sols @ F1) < m \<longrightarrow> set F1 = {s. fills s g1}"
      by blast
    have "g1[row := (g1 ! row)[col := Null]] = g"
      using update_cell_twice[OF g1_def, of Null] update_cell_same[OF w rc e] by simp
    then have reset: "setCell g1 row col Null = Inr g"
      using setCell_shape9[OF s1 rc] by simp
    from "3.hyps"(2)[OF v True sc rec refl reset w rc e dn ns] obtain F2 where
      t: "tryAll row col nums g (sols @ F1) m = Inr (g, (sols @ F1) @ F2)" and d2: "distinct F2"
      and sub2: "set F2 \<subseteq> ?C nums"
      and all2: "length ((sols @ F1) @ F2) < m \<longrightarrow> set F2 = ?C nums"
      by blast
    have eq: "tryAll row col (num # nums) g sols m = Inr (g, sols @ (F1 @ F2))"
      using v True sc rec reset t by simp
    have disj: "set F1 \<inter> set F2 = {}"
    proof -
      have "s ! row ! col = Num num" if "s \<in> set F1" for s using that sub1 c1 by auto
      moreover have "s ! row ! col \<noteq> Num num" if "s \<in> set F2" for s
        using that sub2 nn by auto
      ultimately show ?thesis by blast
    qed
    have cu: "?C (num # nums) = {s. fills s g1} \<union> ?C nums" using c1 by auto
    have "distinct (F1 @ F2)" using d1 d2 disj by simp
    moreover have "set (F1 @ F2) \<subseteq> ?C (num # nums)" using sub1 sub2 cu by auto
    moreover have "length (sols @ (F1 @ F2)) < m \<longrightarrow> set (F1 @ F2) = ?C (num # nums)"
      using all1 all2 cu by auto
    ultimately show ?thesis using eq by blast
  qed
qed

lemma hasUniqueSolution_shape9:
  assumes "shape9 g"
  shows "hasUniqueSolution g = Inr (\<exists>!s. fills s g)"
proof -
  from findAll_count(1)[OF assms, of "[]" 2] obtain F where
    r: "findAllSolutions g [] 2 = Inr (g, F)" and d: "distinct F"
    and sub: "set F \<subseteq> {s. fills s g}"
    and all: "length F < 2 \<longrightarrow> set F = {s. fills s g}"
    by auto
  have "(length F = 1) = (\<exists>!s. fills s g)"
  proof
    assume l: "length F = 1"
    then obtain s where F: "F = [s]" by (cases F) auto
    have "set F = {s. fills s g}" using all l by simp
    then have "\<And>t. fills t g = (t = s)" using F by auto
    then show "\<exists>!s. fills s g" by simp
  next
    assume u: "\<exists>!s. fills s g"
    then obtain s where s: "fills s g" "\<And>t. fills t g \<Longrightarrow> t = s" by blast
    have mem: "\<And>t. t \<in> set F \<Longrightarrow> t = s" using sub s(2) by blast
    have "F \<noteq> []"
    proof
      assume "F = []"
      then have "set F = {s. fills s g}" using all by simp
      then show False using s(1) \<open>F = []\<close> by simp
    qed
    then obtain a F' where F: "F = a # F'" by (cases F) auto
    have "F' = []"
    proof (cases F')
      case Nil
      then show ?thesis .
    next
      case (Cons b F'')
      then have "a = s" "b = s" using mem F by simp_all
      then show ?thesis using d F Cons by simp
    qed
    then show "length F = 1" using F by simp
  qed
  then show ?thesis using r by (simp add: hasUniqueSolution_def cloneGrid_def)
qed

lemma hasUniqueSolution_examplePuzzle: "hasUniqueSolution examplePuzzle = Inr True"
  by code_simp

lemma hasUniqueSolution_exampleUnsolvable: "hasUniqueSolution exampleUnsolvable = Inr False"
  by code_simp

subsection \<open>Shuffling\<close>

lemma shuffleLoop_set: "k < length xs \<Longrightarrow> set (shuffleLoop k draw xs) = set xs"
proof (induction k arbitrary: xs)
  case 0
  then show ?case by simp
next
  case (Suc k)
  have "draw (Suc k) mod (Suc k + 1) < Suc k + 1"
    by (rule mod_less_divisor) simp
  then have j: "draw (Suc k) mod (Suc k + 1) < length xs"
    using Suc.prems by arith
  show ?case
    using Suc.IH[of "xs[Suc k := xs ! (draw (Suc k) mod (Suc k + 1)),
                       draw (Suc k) mod (Suc k + 1) := xs ! Suc k]"] Suc.prems j
    by (simp add: Let_def set_swap)
qed

lemma shuffleArray_set: "set (shuffleArray draw xs) = set xs"
  by (cases "xs = []") (simp_all add: shuffleArray_def shuffleLoop_set)

lemma shuffleLoop_length: "length (shuffleLoop k draw xs) = length xs"
  by (induction k arbitrary: xs) (simp_all add: Let_def)

lemma shuffleArray_length: "length (shuffleArray draw xs) = length xs"
  by (simp add: shuffleArray_def shuffleLoop_length)

lemma shuffleArray_distinct: "distinct xs \<Longrightarrow> distinct (shuffleArray draw xs)"
proof -
  assume "distinct xs"
  then have "card (set (shuffleArray draw xs)) = length (shuffleArray draw xs)"
    by (simp add: shuffleArray_set shuffleArray_length distinct_card)
  then show ?thesis by (rule card_distinct)
qed

lemma numbering_shuffle: "numbering (shuffleArray draw [1..<10])"
  by (auto simp: numbering_def shuffleArray_length shuffleArray_distinct list_all_iff
        shuffleArray_set)

subsection \<open>The diagonal boxes\<close>

lemma boxIndices_eq: "boxIndices = [(0,0),(0,1),(0,2),(1,0),(1,1),(1,2),(2,0),(2,1),(2,2)]"
  by code_simp

lemma fillBoxes_explicit:
  assumes "length a = 9" and "length b = 9" and "length c = 9"
  shows "\<exists>g1 g2. fillBoxLoop createEmptyGrid 0 0 a 0 boxIndices = Inr g1 \<and>
                 fillBoxLoop g1 3 3 b 0 boxIndices = Inr g2 \<and>
                 fillBoxLoop g2 6 6 c 0 boxIndices = Inr (diagonalGrid a b c)"
  using assms
  by (simp add: boxIndices_eq createEmptyGrid_def GRID_SIZE_def setCell_def setIndex_def
        element_def diagonalGrid_def eval_nat_numeral)

lemma fillBox_eq:
  "fillBox g row col draw = fillBoxLoop g row col (shuffleArray draw [1..<10]) 0 boxIndices"
  by (simp add: fillBox_def boxIndices_def)

lemma fillDiagonalBoxes_drawn: "fillDiagonalBoxes createEmptyGrid draws = Inr (drawn draws)"
proof -
  let ?a = "shuffleArray (draws 0) [1..<10]"
  let ?b = "shuffleArray (draws 3) [1..<10]"
  let ?c = "shuffleArray (draws 6) [1..<10]"
  have l: "length ?a = 9" "length ?b = 9" "length ?c = 9"
    by (simp_all add: shuffleArray_length)
  from fillBoxes_explicit[OF l] obtain g1 g2 where
    "fillBoxLoop createEmptyGrid 0 0 ?a 0 boxIndices = Inr g1"
    "fillBoxLoop g1 3 3 ?b 0 boxIndices = Inr g2"
    "fillBoxLoop g2 6 6 ?c 0 boxIndices = Inr (diagonalGrid ?a ?b ?c)"
    by blast
  moreover have "map (\<lambda>k. k * BOX_SIZE) [0..<GRID_SIZE div BOX_SIZE] = [0, 3, 6]"
    by code_simp
  ultimately show ?thesis
    by (simp add: fillDiagonalBoxes_def fillBox_eq drawn_def)
qed

lemma getAllPositions_eq:
  "getAllPositions =
     [(0,0),(0,1),(0,2),(0,3),(0,4),(0,5),(0,6),(0,7),(0,8),
      (1,0),(1,1),(1,2),(1,3),(1,4),(1,5),(1,6),(1,7),(1,8),
      (2,0),(2,1),(2,2),(2,3),(2,4),(2,5),(2,6),(2,7),(2,8),
      (3,0),(3,1),(3,2),(3,3),(3,4),(3,5),(3,6),(3,7),(3,8),
      (4,0),(4,1),(4,2),(4,3),(4,4),(4,5),(4,6),(4,7),(4,8),
      (5,0),(5,1),(5,2),(5,3),(5,4),(5,5),(5,6),(5,7),(5,8),
      (6,0),(6,1),(6,2),(6,3),(6,4),(6,5),(6,6),(6,7),(6,8),
      (7,0),(7,1),(7,2),(7,3),(7,4),(7,5),(7,6),(7,7),(7,8),
      (8,0),(8,1),(8,2),(8,3),(8,4),(8,5),(8,6),(8,7),(8,8)]"
  by code_simp

lemma diagonalGrid_cell:
  "list_all (\<lambda>(r, c'). diagonalGrid a b c ! r ! c' =
       (if r div 3 = c' div 3 then Num (boxList a b c (r div 3) ! (3 * (r mod 3) + c' mod 3))
        else Null)) getAllPositions"
  unfolding getAllPositions_eq by (simp add: diagonalGrid_def boxList_def numeral_2_eq_2)

lemma diagonalGrid_nth:
  assumes "r < 9" and "c' < 9"
  shows "diagonalGrid a b c ! r ! c' =
       (if r div 3 = c' div 3 then Num (boxList a b c (r div 3) ! (3 * (r mod 3) + c' mod 3))
        else Null)"
proof -
  have "\<forall>r<9. \<forall>c'<9. diagonalGrid a b c ! r ! c' =
       (if r div 3 = c' div 3 then Num (boxList a b c (r div 3) ! (3 * (r mod 3) + c' mod 3))
        else Null)"
    using diagonalGrid_cell[of a b c] unfolding all_positions_iff by simp
  then show ?thesis using assms by blast
qed

lemma shape9_diagonalGrid: "shape9 (diagonalGrid a b c)"
  by (simp add: shape9_def diagonalGrid_def)

lemma numbering_boxList:
  "numbering a \<Longrightarrow> numbering b \<Longrightarrow> numbering c \<Longrightarrow> numbering (boxList a b c k)"
  by (simp add: boxList_def)

lemma numbering_nth:
  assumes "numbering a" and "i < 9"
  shows "1 \<le> a ! i \<and> a ! i \<le> 9"
  using assms by (simp add: numbering_def list_all_length)

lemma numbering_inj:
  assumes "numbering a" and "i < 9" and "j < 9" and "a ! i = a ! j"
  shows "i = j"
  using assms by (simp add: numbering_def nth_eq_iff_index_eq)

lemma index_bound: "p < 3 \<Longrightarrow> q < 3 \<Longrightarrow> 3 * p + q < (9::nat)"
  by arith

lemma index_inj:
  "p < 3 \<Longrightarrow> q < 3 \<Longrightarrow> p' < 3 \<Longrightarrow> q' < 3 \<Longrightarrow> 3 * p + q = 3 * p' + (q'::nat) \<Longrightarrow>
   p = p' \<and> q = q'"
  by arith

lemma box_index: "3 * (r mod 3) + c mod 3 < (9::nat)"
  by (rule index_bound) simp_all

lemma box_index_inj:
  assumes "3 * (r mod 3) + c mod 3 = 3 * (x mod 3) + y mod (3::nat)"
    and "r div 3 = x div 3" and "c div 3 = y div 3"
  shows "r = x \<and> c = y"
proof -
  have m: "r mod 3 = x mod 3 \<and> c mod 3 = y mod 3"
    by (rule index_inj[OF _ _ _ _ assms(1)]) simp_all
  have "r = r div 3 * 3 + r mod 3" by simp
  also have "\<dots> = x div 3 * 3 + x mod 3" using assms(2) m by simp
  also have "\<dots> = x" by simp
  finally have rx: "r = x" .
  have "c = c div 3 * 3 + c mod 3" by simp
  also have "\<dots> = y div 3 * 3 + y mod 3" using assms(3) m by simp
  also have "\<dots> = y" by simp
  finally have "c = y" .
  then show ?thesis using rx by simp
qed

lemma chain_fillOrder: "chain fillOrder"
  by code_simp

lemma nextCell_start: "nextCell 0 BOX_SIZE = Some (hd fillOrder)"
  by code_simp

lemma length_fillOrder: "length fillOrder = 54"
  by code_simp

lemma pending_iff:
  "pending g ps =
     (shape9 g \<and> distinct ps \<and> (\<forall>(r, c) \<in> set ps. r < 9 \<and> c < 9) \<and>
      (\<forall>r<9. \<forall>c<9. (g ! r ! c = Null) = ((r, c) \<in> set ps)) \<and> chain ps)"
  unfolding pending_def all_positions_iff by (simp add: list_all_iff)

lemma pending_head:
  assumes "pending g ((row, col) # ps)"
  shows "shape9 g" and "row < 9" and "col < 9" and "g ! row ! col = Null"
  using assms by (auto simp: pending_iff)

lemma chain_tail: "chain (p # ps) \<Longrightarrow> chain ps \<and> follows (fst p) (snd p + 1) ps"
  by (cases ps) (simp_all add: follows_def)

lemma pending_place:
  assumes p: "pending g ((row, col) # ps)" and v: "v \<noteq> Null"
  shows "pending (g[row := (g ! row)[col := v]]) ps" and "follows row (col + 1) ps"
proof -
  note h = pending_head[OF p]
  have ch: "chain ps" "follows row (col + 1) ps"
    using p chain_tail[of "(row, col)" ps] by (simp_all add: pending_iff)
  have notin: "(row, col) \<notin> set ps" and d: "distinct ps"
    and r: "\<forall>(r, c) \<in> set ps. r < 9 \<and> c < 9"
    using p by (auto simp: pending_iff)
  have nulls: "(g ! r ! c = Null) = ((r, c) \<in> set ((row, col) # ps))" if "r < 9" "c < 9" for r c
    using p that by (simp add: pending_iff)
  have "(g[row := (g ! row)[col := v]] ! r ! c = Null) = ((r, c) \<in> set ps)"
    if rc: "r < 9" "c < 9" for r c
  proof (cases "r = row \<and> c = col")
    case True
    then show ?thesis using nth_update_cell[OF h(1) rc h(2,3), of v] v notin by simp
  next
    case False
    then show ?thesis using nth_update_cell[OF h(1) rc h(2,3), of v] nulls[OF rc] by auto
  qed
  then show "pending (g[row := (g ! row)[col := v]]) ps"
    using shape9_update[OF h(1)] d r ch(1) by (simp add: pending_iff)
  show "follows row (col + 1) ps" using ch(2) .
qed

lemma mem_fillOrder: "((r, c) \<in> set fillOrder) = (r < 9 \<and> c < 9 \<and> r div 3 \<noteq> c div 3)"
  by (auto simp: fillOrder_def set_getAllPositions)

lemma distinct_fillOrder: "distinct fillOrder"
  by (simp add: fillOrder_def distinct_getAllPositions)

lemma pending_diagonalGrid:
  assumes "numbering a" and "numbering b" and "numbering c"
  shows "pending (diagonalGrid a b c) fillOrder"
proof -
  have nulls: "(diagonalGrid a b c ! r ! c' = Null) = ((r, c') \<in> set fillOrder)"
    if "r < 9" "c' < 9" for r c'
    using that by (simp add: mem_fillOrder diagonalGrid_nth[OF that])
  have range: "\<forall>(r, c) \<in> set fillOrder. r < 9 \<and> c < 9"
    using mem_fillOrder by blast
  show ?thesis
    unfolding pending_iff
    using shape9_diagonalGrid distinct_fillOrder chain_fillOrder nulls range by blast
qed

lemma isGrid_diagonalGrid:
  assumes "numbering a" and "numbering b" and "numbering c"
  shows "isGrid (diagonalGrid a b c)"
proof -
  have "diagonalGrid a b c ! r ! c' = Null \<or> cellInRange (diagonalGrid a b c ! r ! c')"
    if "r < 9" "c' < 9" for r c'
    using numbering_nth[OF numbering_boxList[OF assms] box_index, of "r div 3" r c']
    by (cases "r div 3 = c' div 3") (simp_all add: diagonalGrid_nth[OF that] cellInRange_Num)
  then show ?thesis by (simp add: isGrid_def all_positions_iff shape9_diagonalGrid)
qed

lemma conflictFree_diagonalGrid:
  assumes "numbering a" and "numbering b" and "numbering c"
  shows "conflictFree (diagonalGrid a b c)"
proof -
  let ?D = "diagonalGrid a b c"
  have "\<not> clashes ?D r c'" if rc: "r < 9" "c' < 9" and n: "?D ! r ! c' \<noteq> Null" for r c'
  proof
    assume "clashes ?D r c'"
    then obtain x y where xy: "(x, y) \<in> set (peers r c')" "?D ! x ! y = ?D ! r ! c'"
      by (auto simp: clashes_iff)
    have xy9: "x < 9" "y < 9" and ne: "x \<noteq> r \<or> y \<noteq> c'"
      and near: "x = r \<or> y = c' \<or> (x div 3 = r div 3 \<and> y div 3 = c' div 3)"
      using xy(1) by (auto simp: mem_peers)
    have d1: "r div 3 = c' div 3"
      using n diagonalGrid_nth[OF rc, of a b c] by (cases "r div 3 = c' div 3") simp_all
    have d2: "x div 3 = y div 3"
      using n xy(2) diagonalGrid_nth[OF xy9, of a b c] by (cases "x div 3 = y div 3") simp_all
    have same: "x div 3 = r div 3" "y div 3 = c' div 3" using near d1 d2 by auto
    have "boxList a b c (r div 3) ! (3 * (x mod 3) + y mod 3) =
          boxList a b c (r div 3) ! (3 * (r mod 3) + c' mod 3)"
      using xy(2) diagonalGrid_nth[OF xy9, of a b c] diagonalGrid_nth[OF rc, of a b c] d1 d2 same
      by simp
    then have "3 * (x mod 3) + y mod 3 = 3 * (r mod 3) + c' mod 3"
      using numbering_inj[OF numbering_boxList[OF assms] box_index box_index] by blast
    then have "x = r \<and> y = c'" using box_index_inj same by blast
    then show False using ne by simp
  qed
  then show ?thesis by (auto simp: conflictFree_def all_positions_iff)
qed

subsection \<open>The fill outside the diagonal boxes\<close>

text \<open>With fuel for every cell still to fill, the fill is an exhaustive search: it
  succeeds exactly if the grid can be filled, then holds such a filling, and otherwise
  leaves the grid as it was.\<close>

lemma fill_search:
  "pending g ps \<Longrightarrow> follows row col ps \<Longrightarrow> length ps < fuel \<Longrightarrow>
     \<exists>b g'. fillRemaining fuel g row col = Some (Inr (b, g')) \<and>
            b = (\<exists>s. fills s g) \<and> (if b then fills g' g else g' = g)"
  "pending g ((row, col) # ps) \<Longrightarrow> length ps < fuel \<Longrightarrow> distinct nums \<Longrightarrow>
     \<forall>n \<in> set nums. 1 \<le> n \<and> n \<le> 9 \<Longrightarrow>
     \<exists>b g'. fillNums fuel row col nums g = Some (Inr (b, g')) \<and>
            b = (\<exists>s. fills s g \<and> (\<exists>n \<in> set nums. s ! row ! col = Num n)) \<and>
            (if b then fills g' g else g' = g)"
proof (induct fuel g row col and fuel row col nums g arbitrary: ps and ps
       rule: fillRemaining_fillNums.induct)
  case (1 g row col)
  then show ?case by simp
next
  case (2 fuel g row col)
  show ?case
  proof (cases ps)
    case Nil
    have n: "nextCell row col = None" using "2.prems"(2) Nil by (simp add: follows_def)
    have "shape9 g" "\<forall>r<9. \<forall>c<9. g ! r ! c \<noteq> Null"
      using "2.prems"(1) Nil by (simp_all add: pending_iff)
    then have "fills g g" by (rule fills_self)
    then show ?thesis using n by auto
  next
    case (Cons q qs)
    obtain x y where q: "q = (x, y)" by (cases q)
    have n: "nextCell row col = Some q" using "2.prems"(2) Cons by (simp add: follows_def)
    have p: "pending g ((x, y) # qs)" using "2.prems"(1) Cons q by simp
    have l: "length qs < fuel" using "2.prems"(3) Cons by simp
    have d: "distinct [1..<10::nat]" by simp
    have b: "\<forall>n \<in> set [1..<10]. 1 \<le> n \<and> n \<le> (9::nat)" by auto
    note h = pending_head[OF p]
    have c: "(\<exists>s. fills s g \<and> (\<exists>n \<in> set [1..<10]. s ! x ! y = Num n)) = (\<exists>s. fills s g)"
      using fills_cell_value[OF _ h(2,3,4)] by blast
    have eq: "fillRemaining (Suc fuel) g row col = fillNums fuel x y [1..<10] g"
      using n q by simp
    show ?thesis
      unfolding eq using "2.hyps"[OF n q[symmetric] p l d b] unfolding c .
  qed
next
  case (3 fuel row col g)
  then show ?case by auto
next
  case (4 fuel row col num nums g)
  note p = "4.prems"(1) and l = "4.prems"(2)
  note h = pending_head[OF p]
  note w = h(1) and rc = h(2,3) and e = h(4)
  have n: "1 \<le> num" "num \<le> 9" and ns: "\<forall>n \<in> set nums. 1 \<le> n \<and> n \<le> 9"
    and dn: "distinct nums"
    using "4.prems"(3,4) by auto
  define ok where "ok = (\<not> (\<exists>(r, c) \<in> set (peers row col). g ! r ! c = Num num))"
  have v: "isValidMove g row col (Num num) = Inr ok"
    using isValidMove_peers[OF w rc] by (simp add: ok_def)
  let ?C = "\<lambda>ns. \<exists>s. fills s g \<and> (\<exists>n \<in> set ns. s ! row ! col = Num n)"
  show ?case
  proof (cases ok)
    case False
    have none: "\<not> (fills s g \<and> s ! row ! col = Num num)" for s
      using fills_valid[OF w rc e, of s] False by (auto simp: ok_def)
    then have c: "?C (num # nums) = ?C nums" by auto
    have eq: "fillNums fuel row col (num # nums) g = fillNums fuel row col nums g"
      using v False by simp
    show ?thesis
      unfolding eq c using "4.hyps"(3)[OF v False p l dn ns] .
  next
    case True
    define g1 where "g1 = g[row := (g ! row)[col := Num num]]"
    have sc: "setCell g row col (Num num) = Inr g1"
      using setCell_shape9[OF w rc] by (simp add: g1_def)
    have p1: "pending g1 ps" and f1: "follows row (col + 1) ps"
      using pending_place[OF p, of "Num num"] by (simp_all add: g1_def)
    have s1: "shape9 g1" using p1 by (simp add: pending_iff)
    have c1: "fills s g1 = (fills s g \<and> s ! row ! col = Num num)" for s
      using fills_placed[OF w rc e n] True by (auto simp: ok_def g1_def)
    from "4.hyps"(1)[OF v True sc p1 f1 l] obtain b1 g2 where
      rec: "fillRemaining fuel g1 row (col + 1) = Some (Inr (b1, g2))"
      and b1: "b1 = (\<exists>s. fills s g1)" and r1: "if b1 then fills g2 g1 else g2 = g1"
      by blast
    show ?thesis
    proof (cases b1)
      case yes: True
      have "fillNums fuel row col (num # nums) g = Some (Inr (True, g2))"
        using v True sc rec yes by simp
      moreover have "fills g2 g \<and> g2 ! row ! col = Num num" using r1 yes c1 by simp
      ultimately show ?thesis by auto
    next
      case no: False
      have g2: "g2 = g1" using r1 no by simp
      have "g1[row := (g1 ! row)[col := Null]] = g"
        using update_cell_twice[OF g1_def, of Null] update_cell_same[OF w rc e] by simp
      then have reset: "setCell g2 row col Null = Inr g"
        using setCell_shape9[OF s1 rc] g2 by simp
      have eq: "fillNums fuel row col (num # nums) g = fillNums fuel row col nums g"
        using v True sc rec no reset by simp
      have "\<not> (\<exists>s. fills s g \<and> s ! row ! col = Num num)" using b1 no c1 by simp
      then have c: "?C (num # nums) = ?C nums" by auto
      show ?thesis
        unfolding eq c
        using "4.hyps"(2)[OF v True sc rec refl refl no reset p l dn ns] .
    qed
  qed
qed

text \<open>The generator returns a grid that keeps the three boxes drawn. That grid is solved
  exactly if the boxes drawn can be completed to a solved grid at all; if they cannot,
  the 54 cells outside the diagonal boxes come back empty.\<close>

lemma generateCompleteSolution_result:
  assumes "55 \<le> fuel"
  shows "\<exists>g. generateCompleteSolution fuel draws = Some (Inr g) \<and>
             completes g (drawn draws) \<and>
             solved g = (\<exists>s. solved s \<and> completes s (drawn draws)) \<and>
             (\<not> solved g \<longrightarrow> g = drawn draws)"
proof -
  let ?D = "drawn draws"
  have nb: "numbering (shuffleArray (draws 0) [1..<10])"
    "numbering (shuffleArray (draws 3) [1..<10])" "numbering (shuffleArray (draws 6) [1..<10])"
    by (rule numbering_shuffle)+
  have p: "pending ?D fillOrder" unfolding drawn_def by (rule pending_diagonalGrid[OF nb])
  have ig: "isGrid ?D" unfolding drawn_def by (rule isGrid_diagonalGrid[OF nb])
  have cf: "conflictFree ?D" unfolding drawn_def by (rule conflictFree_diagonalGrid[OF nb])
  have f: "follows 0 BOX_SIZE fillOrder" by code_simp
  have l: "length fillOrder < fuel" using assms length_fillOrder by simp
  from fill_search(1)[OF p f l] obtain b g' where
    r: "fillRemaining fuel ?D 0 BOX_SIZE = Some (Inr (b, g'))"
    and b: "b = (\<exists>s. fills s ?D)" and g': "if b then fills g' ?D else g' = ?D"
    by blast
  have fs: "fills s ?D = (solved s \<and> completes s ?D)" for s
    using fills_iff_solved[OF ig cf] .
  have gen: "generateCompleteSolution fuel draws = Some (Inr g')"
    using r by (simp add: generateCompleteSolution_def fillDiagonalBoxes_drawn)
  have empty: "?D ! 0 ! 3 = Null" by (simp add: drawn_def diagonalGrid_def)
  have ns: "\<not> solved ?D" using empty by (auto simp: solved_def all_positions_iff)
  have cD: "completes ?D ?D" by (simp add: completes_def all_positions_iff)
  show ?thesis
  proof (cases b)
    case True
    then have "solved g' \<and> completes g' ?D" using g' fs by simp
    then show ?thesis using gen by auto
  next
    case False
    then have "g' = ?D" "\<not> (\<exists>s. solved s \<and> completes s ?D)" using g' b fs by simp_all
    then show ?thesis using gen ns cD by auto
  qed
qed

text \<open>The run in which every shuffle draws 0.\<close>

lemma generateCompleteSolution_example:
  "generateCompleteSolution 55 (\<lambda>box i. 0) =
     Some (Inr [[Num 2, Num 3, Num 4, Num 1, Num 5, Num 6, Num 7, Num 8, Num 9],
                [Num 5, Num 6, Num 7, Num 3, Num 8, Num 9, Num 1, Num 4, Num 2],
                [Num 8, Num 9, Num 1, Num 4, Num 7, Num 2, Num 3, Num 5, Num 6],
                [Num 1, Num 5, Num 6, Num 2, Num 3, Num 4, Num 9, Num 7, Num 8],
                [Num 9, Num 2, Num 8, Num 5, Num 6, Num 7, Num 4, Num 1, Num 3],
                [Num 4, Num 7, Num 3, Num 8, Num 9, Num 1, Num 6, Num 2, Num 5],
                [Num 6, Num 8, Num 9, Num 7, Num 1, Num 5, Num 2, Num 3, Num 4],
                [Num 3, Num 1, Num 2, Num 9, Num 4, Num 8, Num 5, Num 6, Num 7],
                [Num 7, Num 4, Num 5, Num 6, Num 2, Num 3, Num 8, Num 9, Num 1]])"
  by code_simp

subsection \<open>The removal loop\<close>

lemma emptied_iff:
  "emptied p sol = (shape9 p \<and> (\<forall>r<9. \<forall>c<9. p ! r ! c = Null \<or> p ! r ! c = sol ! r ! c))"
  by (simp add: emptied_def all_positions_iff)

lemma emptied_self: "shape9 sol \<Longrightarrow> emptied sol sol"
  by (simp add: emptied_iff)

lemma emptied_update:
  assumes "emptied p sol" and "row < 9" and "col < 9"
  shows "emptied (p[row := (p ! row)[col := Null]]) sol"
proof -
  have p: "shape9 p" using assms(1) by (simp add: emptied_iff)
  show ?thesis
    unfolding emptied_iff
    using assms shape9_update[OF p] nth_update_cell[OF p _ _ assms(2,3)]
    by (auto simp: emptied_iff)
qed

lemma emptied_cell:
  "emptied p sol \<Longrightarrow> r < 9 \<Longrightarrow> c < 9 \<Longrightarrow> p ! r ! c \<noteq> Null \<Longrightarrow> p ! r ! c = sol ! r ! c"
  unfolding emptied_iff by blast

lemma solved_cell:
  "solved sol \<Longrightarrow> r < 9 \<Longrightarrow> c < 9 \<Longrightarrow> cellInRange (sol ! r ! c) \<and> \<not> clashes sol r c"
  unfolding solved_def isGrid_def conflictFree_def all_positions_iff by blast

lemma emptied_fills:
  assumes "solved sol" and "emptied p sol"
  shows "fills sol p"
proof -
  have "shape9 sol" using assms(1) by (simp add: solved_def isGrid_def)
  moreover have "if p ! r ! c = Null then cellInRange (sol ! r ! c) \<and> \<not> clashes sol r c
                 else sol ! r ! c = p ! r ! c" if "r < 9" "c < 9" for r c
    using solved_cell[OF assms(1) that] emptied_cell[OF assms(2) that] by simp
  ultimately show ?thesis by (simp add: fills_iff)
qed

lemma emptied_isGrid:
  assumes "solved sol" and "emptied p sol"
  shows "isGrid p"
proof -
  have "shape9 p" using assms(2) by (simp add: emptied_iff)
  moreover have "p ! r ! c = Null \<or> cellInRange (p ! r ! c)" if "r < 9" "c < 9" for r c
    using solved_cell[OF assms(1) that] emptied_cell[OF assms(2) that]
    by (cases "p ! r ! c = Null") simp_all
  ultimately show ?thesis by (simp add: isGrid_def all_positions_iff)
qed

lemma emptied_conflictFree:
  assumes s: "solved sol" and e: "emptied p sol"
  shows "conflictFree p"
proof -
  have "\<not> clashes p r c" if rc: "r < 9" "c < 9" and n: "p ! r ! c \<noteq> Null" for r c
  proof
    assume "clashes p r c"
    then obtain a b where ab: "(a, b) \<in> set (peers r c)" "p ! a ! b = p ! r ! c"
      by (auto simp: clashes_iff)
    have ab9: "a < 9" "b < 9" using ab(1) by (auto simp: mem_peers)
    have "p ! r ! c = sol ! r ! c" using emptied_cell[OF e rc n] .
    moreover have "p ! a ! b = sol ! a ! b" using emptied_cell[OF e ab9] ab(2) n by simp
    ultimately have "clashes sol r c" using ab by (auto simp: clashes_iff)
    moreover have "\<not> clashes sol r c" using solved_cell[OF s rc] by simp
    ultimately show False by simp
  qed
  then show ?thesis by (auto simp: conflictFree_def all_positions_iff)
qed

text \<open>Uniqueness is an invariant of the removal loop: started on a solved grid with
  some cells emptied that has one completion only, every iteration leaves such a grid.\<close>

lemma removeLoop_invariant:
  assumes s: "solved sol"
  shows "emptied p sol \<Longrightarrow> \<exists>!t. fills t p \<Longrightarrow> \<forall>(r, c) \<in> set ps. r < 9 \<and> c < 9 \<Longrightarrow>
         \<exists>states. removeLoop ps removed n p = Inr states \<and>
                  (\<forall>q \<in> set states. emptied q sol \<and> (\<exists>!t. fills t q))"
proof (induction ps arbitrary: removed p)
  case Nil
  then show ?case by simp
next
  case (Cons pos ps)
  obtain row col where pos: "pos = (row, col)" by (cases pos)
  have rc: "row < 9" "col < 9" using Cons.prems(3) pos by auto
  have rest: "\<forall>(r, c) \<in> set ps. r < 9 \<and> c < 9" using Cons.prems(3) by simp
  have p: "shape9 p" using Cons.prems(1) by (simp add: emptied_iff)
  let ?p1 = "p[row := (p ! row)[col := Null]]"
  have g: "getCell p row col = Inr (p ! row ! col)" using getCell_shape9[OF p rc] .
  have s1: "setCell p row col Null = Inr ?p1" using setCell_shape9[OF p rc] .
  have e1: "emptied ?p1 sol" using emptied_update[OF Cons.prems(1) rc] .
  have p1: "shape9 ?p1" using e1 by (simp add: emptied_iff)
  have u: "hasUniqueSolution ?p1 = Inr (\<exists>!t. fills t ?p1)"
    using hasUniqueSolution_shape9[OF p1] .
  have s2: "setCell ?p1 row col (p ! row ! col) = Inr p"
    using setCell_shape9[OF p1 rc, of "p ! row ! col"] update_cell_twice[OF refl, of p row col Null "p ! row ! col"]
      update_cell_same[OF p rc refl]
    by simp
  show ?case
  proof (cases "removed \<ge> n")
    case True
    then show ?thesis by (simp add: pos)
  next
    case False
    show ?thesis
    proof (cases "\<exists>!t. fills t ?p1")
      case True
      from Cons.IH[OF e1 True rest, of "removed + 1"] obtain later where
        l: "removeLoop ps (removed + 1) n ?p1 = Inr later"
           "\<forall>q \<in> set later. emptied q sol \<and> (\<exists>!t. fills t q)"
        by blast
      have "removeLoop (pos # ps) removed n p = Inr (?p1 # later)"
        using False g s1 u True l(1) by (simp add: pos)
      then show ?thesis using l(2) e1 True by simp
    next
      case no: False
      from Cons.IH[OF Cons.prems(1,2) rest, of removed] obtain later where
        l: "removeLoop ps removed n p = Inr later"
           "\<forall>q \<in> set later. emptied q sol \<and> (\<exists>!t. fills t q)"
        by blast
      have "removeLoop (pos # ps) removed n p = Inr (p # later)"
        using False g s1 u no s2 l(1) by (simp add: pos)
      then show ?thesis using l(2) Cons.prems(1,2) by simp
    qed
  qed
qed

text \<open>If the three boxes drawn can be completed to a solved grid, the solution returned
  is solved, the puzzle returned is that solution with some cells emptied, the solution
  is its one completion, and the uniqueness check accepts it.\<close>

lemma generatePuzzle_unique:
  assumes fuel: "55 \<le> fuel" and ex: "\<exists>s. solved s \<and> completes s (drawn draws)"
  shows "\<exists>puzzle sol. generatePuzzle fuel diff draws draw = Some (Inr (puzzle, sol)) \<and>
           solved sol \<and> emptied puzzle sol \<and>
           hasUniqueSolution puzzle = Inr True \<and>
           (\<forall>t. (solved t \<and> completes t puzzle) = (t = sol))"
proof -
  from generateCompleteSolution_result[OF fuel, of draws] ex obtain sol where
    gs: "generateCompleteSolution fuel draws = Some (Inr sol)" and s: "solved sol"
    by auto
  have sh: "shape9 sol" using s by (simp add: solved_def isGrid_def)
  have full: "\<forall>r<9. \<forall>c<9. sol ! r ! c \<noteq> Null"
    using s by (simp add: solved_def all_positions_iff)
  have e0: "emptied sol sol" using emptied_self[OF sh] .
  have u0: "\<exists>!t. fills t sol" using fills_full[OF sh full] by simp
  have ps: "\<forall>(r, c) \<in> set (shuffleArray draw getAllPositions). r < 9 \<and> c < 9"
    by (auto simp: shuffleArray_set set_getAllPositions)
  from removeLoop_invariant[OF s e0 u0 ps, of 0 "getCellsToRemove diff"] obtain states where
    st: "removeLoop (shuffleArray draw getAllPositions) 0 (getCellsToRemove diff) sol = Inr states"
        "\<forall>q \<in> set states. emptied q sol \<and> (\<exists>!t. fills t q)"
    by blast
  let ?puzzle = "last (sol # states)"
  have "?puzzle \<in> set (sol # states)" by (rule last_in_set) simp
  then have e: "emptied ?puzzle sol" and u: "\<exists>!t. fills t ?puzzle"
    using st(2) e0 u0 by auto
  have gen: "generatePuzzle fuel diff draws draw = Some (Inr (?puzzle, sol))"
    using gs st(1) by (simp add: generatePuzzle_def cloneGrid_def Let_def)
  have shp: "shape9 ?puzzle" using e by (simp add: emptied_iff)
  have hu: "hasUniqueSolution ?puzzle = Inr True"
    using hasUniqueSolution_shape9[OF shp] u by simp
  have f: "fills sol ?puzzle" using emptied_fills[OF s e] .
  have "\<And>t. fills t ?puzzle = (t = sol)" using u f by auto
  then have "\<forall>t. (solved t \<and> completes t ?puzzle) = (t = sol)"
    using fills_iff_solved[OF emptied_isGrid[OF s e] emptied_conflictFree[OF s e]] by simp
  then show ?thesis using gen s e hu by blast
qed

end
